theory Spec2Isabelle
  imports Main "HOL-Library.Word"
begin

section \<open>The allocator of \<^verbatim>\<open>malloc.c\<close>\<close>

text \<open>
  The program is a first-fit allocator on top of \<^verbatim>\<open>sbrk\<close>. Every region it hands out
  is preceded by a \<^verbatim>\<open>struct block_meta\<close>; the records form a singly linked chain that
  starts at \<^verbatim>\<open>global_base\<close>.

  The model fixes the LP64 data model on a little-endian machine: pointers and
  \<^verbatim>\<open>size_t\<close> are 64-bit words, \<^verbatim>\<open>int\<close> is a 32-bit word, and
  \<^verbatim>\<open>sizeof(struct block_meta)\<close> is 24. Arithmetic on sizes and addresses wraps around, as
  unsigned arithmetic does in C.

  Memory is one array of bytes. A record is not a value of its own: it is the 24 bytes at
  its address, and a member is read and written through these bytes. Two records less
  than 24 bytes apart share bytes, and a write to the bytes of a region that lie inside a
  record changes the record.
\<close>

subsection \<open>Bytes and words\<close>

type_synonym addr = "64 word"
type_synonym size_t = "64 word"
type_synonym c_int = "32 word"
type_synonym byte = "8 word"

text \<open>The number that a list of bytes stands for, lowest byte first, and back.\<close>

fun le_nat :: "byte list \<Rightarrow> nat" where
  "le_nat [] = 0"
| "le_nat (b # bs) = unat b + 256 * le_nat bs"

fun le_bytes :: "nat \<Rightarrow> nat \<Rightarrow> byte list" where
  "le_bytes 0 n = []"
| "le_bytes (Suc k) n = of_nat (n mod 256) # le_bytes k (n div 256)"

text \<open>
  \<open>span a n\<close> is the set of the \<open>n\<close> addresses from \<open>a\<close> on (addresses wrap around).
  \<open>read_bytes\<close> and \<open>write_bytes\<close> read and write consecutive bytes of a memory.
\<close>

definition span :: "addr \<Rightarrow> nat \<Rightarrow> addr set" where
  "span a n = {x. unat (x - a) < n}"

definition read_bytes :: "(addr \<Rightarrow> byte) \<Rightarrow> addr \<Rightarrow> nat \<Rightarrow> byte list" where
  "read_bytes m a k = map (\<lambda>i. m (a + of_nat i)) [0..<k]"

definition write_bytes :: "addr \<Rightarrow> byte list \<Rightarrow> (addr \<Rightarrow> byte) \<Rightarrow> (addr \<Rightarrow> byte)" where
  "write_bytes a bs m = (\<lambda>x. if unat (x - a) < length bs then bs ! unat (x - a) else m x)"

text \<open>Reading and writing an 8-byte and a 4-byte member.\<close>

definition load64 :: "(addr \<Rightarrow> byte) \<Rightarrow> addr \<Rightarrow> 64 word" where
  "load64 m a = of_nat (le_nat (read_bytes m a 8))"

definition load32 :: "(addr \<Rightarrow> byte) \<Rightarrow> addr \<Rightarrow> 32 word" where
  "load32 m a = of_nat (le_nat (read_bytes m a 4))"

definition store64 :: "addr \<Rightarrow> 64 word \<Rightarrow> (addr \<Rightarrow> byte) \<Rightarrow> (addr \<Rightarrow> byte)" where
  "store64 a v m = write_bytes a (le_bytes 8 (unat v)) m"

definition store32 :: "addr \<Rightarrow> 32 word \<Rightarrow> (addr \<Rightarrow> byte) \<Rightarrow> (addr \<Rightarrow> byte)" where
  "store32 a v m = write_bytes a (le_bytes 4 (unat v)) m"

subsection \<open>Data\<close>

text \<open>
  \<^verbatim>\<open>struct block_meta\<close>. The members keep their names, with the suffix \<open>_m\<close>
  (\<open>size\<close> and \<open>free\<close> are taken otherwise). \<open>OFF_size\<close> to \<open>OFF_magic\<close> are the offsets
  of the members in the record: \<^verbatim>\<open>size\<close> at 0, \<^verbatim>\<open>next\<close> at 8, \<^verbatim>\<open>free\<close> at 16,
  \<^verbatim>\<open>magic\<close> at 20.
\<close>

record block_meta =
  size_m :: size_t
  next_m :: addr
  free_m :: c_int
  magic_m :: c_int

definition META_SIZE :: "64 word" where
  "META_SIZE = 24"

definition OFF_size :: "64 word" where
  "OFF_size = 0"

definition OFF_next :: "64 word" where
  "OFF_next = 8"

definition OFF_free :: "64 word" where
  "OFF_free = 16"

definition OFF_magic :: "64 word" where
  "OFF_magic = 20"

definition NULL :: addr where
  "NULL = 0"

definition SIZE_MAX :: size_t where
  "SIZE_MAX = - 1"

text \<open>The failure value of \<^verbatim>\<open>sbrk\<close>, \<^verbatim>\<open>(void *)-1\<close>.\<close>

definition SBRK_FAILED :: addr where
  "SBRK_FAILED = - 1"

text \<open>The record that the 24 bytes at an address stand for.\<close>

definition read_meta :: "(addr \<Rightarrow> byte) \<Rightarrow> addr \<Rightarrow> block_meta" where
  "read_meta m a = \<lparr>size_m = load64 m (a + OFF_size), next_m = load64 m (a + OFF_next),
     free_m = load32 m (a + OFF_free), magic_m = load32 m (a + OFF_magic)\<rparr>"

text \<open>
  The state of the process as far as the allocator sees it.
  \<^item> \<open>global_base\<close> is the variable of that name.
  \<^item> \<open>mem\<close> is the memory, one byte at every address. Records and the regions
    handed to the caller live in it side by side. Every address can be read and
    written: the model has no unmapped page, so a member access never faults.
  \<^item> \<open>brk\<close> is the program break and \<open>sbrk_grants\<close> the operating system's
    answer: whether moving the break from a given position by a given (nonzero)
    increment succeeds.
  \<^item> \<open>sbrk_calls\<close> and \<open>malloc_calls\<close> are not in the program: they count the
    calls made so far, so that "is not called" can be stated.
\<close>

record heap =
  global_base :: addr
  mem :: "addr \<Rightarrow> byte"
  brk :: addr
  sbrk_grants :: "addr \<Rightarrow> 64 word \<Rightarrow> bool"
  sbrk_calls :: nat
  malloc_calls :: nat

text \<open>
  \<open>blocks s a\<close> is \<^verbatim>\<open>*a\<close> for a \<^verbatim>\<open>struct block_meta *a\<close>: the record read from the
  bytes at \<open>a\<close>. The four functions after it are the assignments to a member,
  \<^verbatim>\<open>b->size = v\<close> and so on.
\<close>

definition blocks :: "heap \<Rightarrow> addr \<Rightarrow> block_meta" where
  "blocks s a = read_meta (mem s) a"

definition set_size :: "addr \<Rightarrow> size_t \<Rightarrow> heap \<Rightarrow> heap" where
  "set_size b v s = s\<lparr>mem := store64 (b + OFF_size) v (mem s)\<rparr>"

definition set_next :: "addr \<Rightarrow> addr \<Rightarrow> heap \<Rightarrow> heap" where
  "set_next b v s = s\<lparr>mem := store64 (b + OFF_next) v (mem s)\<rparr>"

definition set_free :: "addr \<Rightarrow> c_int \<Rightarrow> heap \<Rightarrow> heap" where
  "set_free b v s = s\<lparr>mem := store32 (b + OFF_free) v (mem s)\<rparr>"

definition set_magic :: "addr \<Rightarrow> c_int \<Rightarrow> heap \<Rightarrow> heap" where
  "set_magic b v s = s\<lparr>mem := store32 (b + OFF_magic) v (mem s)\<rparr>"

text \<open>
  A failed \<^verbatim>\<open>assert\<close> aborts the process. \<open>SegmentationFault\<close> is the end of a
  \<^verbatim>\<open>memcpy\<close> or \<^verbatim>\<open>memset\<close> over a range that is not memory (see below).
\<close>

datatype fault = AssertionFailed | SegmentationFault

text \<open>
  A call either ends the process (\<open>Inl\<close>) or returns (\<open>Inr\<close>). Where a loop is involved
  the result is wrapped in \<open>option\<close>, and \<open>None\<close> says that the call never returns.
\<close>

type_synonym 'a outcome = "fault + 'a"

subsection \<open>The collaborators: \<^verbatim>\<open>sbrk\<close>, \<^verbatim>\<open>memcpy\<close>, \<^verbatim>\<open>memset\<close>\<close>

text \<open>
  \<^verbatim>\<open>sbrk\<close> as the comment at the head of the source file and the manual page describe
  it: \<^verbatim>\<open>sbrk(0)\<close> returns the current break; \<^verbatim>\<open>sbrk(val)\<close> moves the break by
  \<^verbatim>\<open>val\<close> and returns the previous break, or returns \<^verbatim>\<open>(void *)-1\<close> and moves nothing.
  The increment is an \<^verbatim>\<open>intptr_t\<close>; the model keeps its 64 bits, and whether a move is
  granted, forwards or backwards, is the answer of the operating system.
\<close>

definition sbrk :: "64 word \<Rightarrow> heap \<Rightarrow> addr \<times> heap" where
  "sbrk increment s =
     (let s' = s\<lparr>sbrk_calls := sbrk_calls s + 1\<rparr> in
      if increment = 0 then (brk s, s')
      else if sbrk_grants s (brk s) increment then (brk s, s'\<lparr>brk := brk s + increment\<rparr>)
      else (SBRK_FAILED, s'))"

text \<open>
  \<^verbatim>\<open>memcpy(dst, src, n)\<close> and \<^verbatim>\<open>memset(dst, c, n)\<close>. \<open>memcpy_bytes\<close> and
  \<open>memset_bytes\<close> are what they do to the memory: the byte at \<open>dst + i\<close> changes for
  \<open>i < n\<close>, whatever it belongs to; \<^verbatim>\<open>memcpy\<close> reads the bytes as they are before the call.
  No machine has memory across the end of the address space: a call whose range of \<open>n\<close>
  bytes does not end at or below \<open>2 ^ 64\<close> cannot complete, and the model ends it with
  \<open>SegmentationFault\<close>. Every other range is taken as memory, also above the break.
\<close>

definition memcpy_bytes :: "addr \<Rightarrow> addr \<Rightarrow> size_t \<Rightarrow> (addr \<Rightarrow> byte) \<Rightarrow> (addr \<Rightarrow> byte)" where
  "memcpy_bytes dst src n m = (\<lambda>a. if a - dst < n then m (src + (a - dst)) else m a)"

definition memset_bytes :: "addr \<Rightarrow> byte \<Rightarrow> size_t \<Rightarrow> (addr \<Rightarrow> byte) \<Rightarrow> (addr \<Rightarrow> byte)" where
  "memset_bytes dst c n m = (\<lambda>a. if a - dst < n then c else m a)"

definition memcpy ::
  "addr \<Rightarrow> addr \<Rightarrow> size_t \<Rightarrow> (addr \<Rightarrow> byte) \<Rightarrow> (addr \<Rightarrow> byte) outcome" where
  "memcpy dst src n m =
     (if 2 ^ 64 < unat dst + unat n \<or> 2 ^ 64 < unat src + unat n then Inl SegmentationFault
      else Inr (memcpy_bytes dst src n m))"

definition memset :: "addr \<Rightarrow> byte \<Rightarrow> size_t \<Rightarrow> (addr \<Rightarrow> byte) \<Rightarrow> (addr \<Rightarrow> byte) outcome" where
  "memset dst c n m =
     (if 2 ^ 64 < unat dst + unat n then Inl SegmentationFault
      else Inr (memset_bytes dst c n m))"

subsection \<open>The first, simple \<^verbatim>\<open>malloc\<close> (lines 30 to 45)\<close>

definition malloc_simple :: "size_t \<Rightarrow> heap \<Rightarrow> (addr \<times> heap) outcome" where
  "malloc_simple sz s =
     (let (p, s1) = sbrk 0 s;
          (request, s2) = sbrk sz s1
      in if request = SBRK_FAILED then Inr (NULL, s2)
         else if p \<noteq> request then Inl AssertionFailed
         else Inr (p, s2))"

subsection \<open>The allocator\<close>

text \<open>
  The loop of \<^verbatim>\<open>find_free_block\<close>. The source updates \<^verbatim>\<open>*last\<close> through a pointer; the
  model returns the last record visited together with the record found (\<open>NULL\<close> when the
  scan runs off the end). On a chain with a cycle the scan does not return.
\<close>

partial_function (option) find_free_block_loop ::
  "heap \<Rightarrow> size_t \<Rightarrow> addr \<Rightarrow> addr \<Rightarrow> (addr \<times> addr) option" where
  "find_free_block_loop s sz last_b current =
     (if current \<noteq> NULL \<and>
         \<not> (free_m (blocks s current) \<noteq> 0 \<and> sz \<le> size_m (blocks s current))
      then find_free_block_loop s sz current (next_m (blocks s current))
      else Some (last_b, current))"

definition find_free_block :: "addr \<Rightarrow> size_t \<Rightarrow> heap \<Rightarrow> (addr \<times> addr) option" where
  "find_free_block last_b sz s = find_free_block_loop s sz last_b (global_base s)"

text \<open>The two assignments \<^verbatim>\<open>b->free = f; b->magic = g;\<close> in this order.\<close>

definition set_free_magic :: "addr \<Rightarrow> c_int \<Rightarrow> c_int \<Rightarrow> heap \<Rightarrow> heap" where
  "set_free_magic b f g s = set_magic b g (set_free b f s)"

text \<open>
  \<^verbatim>\<open>request_space\<close>. The assertion on line 97 comes before the test for failure on line
  98, as in the source. \<^verbatim>\<open>size + META_SIZE\<close> is computed in \<^verbatim>\<open>size_t\<close> and not checked:
  it can wrap around. The record is written member by member at the old break, in the
  order of the source, after \<^verbatim>\<open>last->next = block\<close>.
\<close>

definition request_space :: "addr \<Rightarrow> size_t \<Rightarrow> heap \<Rightarrow> (addr \<times> heap) outcome" where
  "request_space last_b sz s =
     (let (block, s1) = sbrk 0 s;
          (request, s2) = sbrk (sz + META_SIZE) s1
      in if block \<noteq> request then Inl AssertionFailed
         else if request = SBRK_FAILED then Inr (NULL, s2)
         else
           let s3 = (if last_b \<noteq> NULL then set_next last_b block s2 else s2);
               s4 = set_size block sz s3;
               s5 = set_next block NULL s4;
               s6 = set_free block 0 s5;
               s7 = set_magic block 0x12345678 s6
           in Inr (block, s7))"

text \<open>
  \<^verbatim>\<open>malloc\<close> (lines 116 to 159). The parameter is a \<^verbatim>\<open>size_t\<close>, so the guard
  \<^verbatim>\<open>size <= 0\<close> is a comparison of unsigned numbers.
\<close>

definition malloc :: "size_t \<Rightarrow> heap \<Rightarrow> (addr \<times> heap) outcome option" where
  "malloc sz s0 =
     (let s = s0\<lparr>malloc_calls := malloc_calls s0 + 1\<rparr> in
      if sz \<le> 0 then Some (Inr (NULL, s))
      else if global_base s = NULL then
        (case request_space NULL sz s of
           Inl f \<Rightarrow> Some (Inl f)
         | Inr (block, s1) \<Rightarrow>
             if block = NULL then Some (Inr (NULL, s1))
             else Some (Inr (block + META_SIZE, s1\<lparr>global_base := block\<rparr>)))
      else
        (case find_free_block (global_base s) sz s of
           None \<Rightarrow> None
         | Some (last_b, block) \<Rightarrow>
             if block = NULL then
               (case request_space last_b sz s of
                  Inl f \<Rightarrow> Some (Inl f)
                | Inr (block', s1) \<Rightarrow>
                    if block' = NULL then Some (Inr (NULL, s1))
                    else Some (Inr (block' + META_SIZE, s1)))
             else Some (Inr (block + META_SIZE, set_free_magic block 0 0x77777777 s))))"

definition get_block_ptr :: "addr \<Rightarrow> addr" where
  "get_block_ptr ptr = ptr - META_SIZE"

definition free :: "addr \<Rightarrow> heap \<Rightarrow> heap outcome" where
  "free ptr s =
     (if ptr = NULL then Inr s
      else
        let block_ptr = get_block_ptr ptr in
        if free_m (blocks s block_ptr) \<noteq> 0 then Inl AssertionFailed
        else if \<not> (magic_m (blocks s block_ptr) = 0x77777777
                   \<or> magic_m (blocks s block_ptr) = 0x12345678) then Inl AssertionFailed
        else Inr (set_free_magic block_ptr 1 0x55555555 s))"

text \<open>
  \<^verbatim>\<open>realloc\<close> (lines 193 to 222). \<^verbatim>\<open>block_ptr->size\<close> is read for the comparison before the
  call of \<^verbatim>\<open>malloc\<close> and again for \<^verbatim>\<open>memcpy\<close> after it.
\<close>

definition realloc :: "addr \<Rightarrow> size_t \<Rightarrow> heap \<Rightarrow> (addr \<times> heap) outcome option" where
  "realloc ptr sz s =
     (if ptr = NULL then malloc sz s
      else
        let block_ptr = get_block_ptr ptr in
        if sz \<le> size_m (blocks s block_ptr) then Some (Inr (ptr, s))
        else
          (case malloc sz s of
             None \<Rightarrow> None
           | Some (Inl f) \<Rightarrow> Some (Inl f)
           | Some (Inr (new_ptr, s1)) \<Rightarrow>
               if new_ptr = NULL then Some (Inr (NULL, s1))
               else
                 (case memcpy new_ptr ptr (size_m (blocks s1 block_ptr)) (mem s1) of
                    Inl f \<Rightarrow> Some (Inl f)
                  | Inr m \<Rightarrow>
                      (case free ptr (s1\<lparr>mem := m\<rparr>) of
                         Inl f \<Rightarrow> Some (Inl f)
                       | Inr s3 \<Rightarrow> Some (Inr (new_ptr, s3))))))"

definition calloc :: "size_t \<Rightarrow> size_t \<Rightarrow> heap \<Rightarrow> (addr \<times> heap) outcome option" where
  "calloc nelem elsize s =
     (if 0 < nelem \<and> SIZE_MAX div nelem < elsize then Some (Inr (NULL, s))
      else
        let sz = nelem * elsize in
        (case malloc sz s of
           None \<Rightarrow> None
         | Some (Inl f) \<Rightarrow> Some (Inl f)
         | Some (Inr (ptr, s1)) \<Rightarrow>
             if ptr \<noteq> NULL then
               (case memset ptr 0 sz (mem s1) of
                  Inl f \<Rightarrow> Some (Inl f)
                | Inr m \<Rightarrow> Some (Inr (ptr, s1\<lparr>mem := m\<rparr>)))
             else Some (Inr (ptr, s1))))"

subsection \<open>The chain\<close>

text \<open>
  \<open>chain_from s a as\<close>: following \<^verbatim>\<open>next\<close> from \<open>a\<close> visits exactly the records at the
  addresses \<open>as\<close>, in this order, and then reaches \<open>NULL\<close>.
\<close>

fun chain_from :: "heap \<Rightarrow> addr \<Rightarrow> addr list \<Rightarrow> bool" where
  "chain_from s a [] = (a = NULL)"
| "chain_from s a (b # bs) = (a \<noteq> NULL \<and> a = b \<and> chain_from s (next_m (blocks s a)) bs)"

text \<open>\<open>fits s sz a\<close>: the test of the scan, the record at \<open>a\<close> is free and large enough.\<close>

definition fits :: "heap \<Rightarrow> size_t \<Rightarrow> addr \<Rightarrow> bool" where
  "fits s sz a = (free_m (blocks s a) \<noteq> 0 \<and> sz \<le> size_m (blocks s a))"

text \<open>The three markers.\<close>

definition MAGIC_CARVED :: c_int where
  "MAGIC_CARVED = 0x12345678"

definition MAGIC_RECYCLED :: c_int where
  "MAGIC_RECYCLED = 0x77777777"

definition MAGIC_RELEASED :: c_int where
  "MAGIC_RELEASED = 0x55555555"

text \<open>
  \<open>header a\<close> is the set of the 24 addresses of the record at \<open>a\<close>.

  \<open>heap_ok s as\<close> says that the heap is laid out as the allocator means it to be: the
  chain from \<^verbatim>\<open>global_base\<close> is \<open>as\<close>; every record of it lies, with the region of its
  recorded size, below the break; and no two of these lie over each other. The
  comparisons are between numbers, not words, so nothing wraps around in them.
\<close>

definition header :: "addr \<Rightarrow> addr set" where
  "header a = span a 24"

definition heap_ok :: "heap \<Rightarrow> addr list \<Rightarrow> bool" where
  "heap_ok s as =
     (chain_from s (global_base s) as \<and>
      (\<forall>a\<in>set as. unat a + 24 + unat (size_m (blocks s a)) \<le> unat (brk s)) \<and>
      (\<forall>a\<in>set as. \<forall>c\<in>set as. a \<noteq> c \<longrightarrow>
          unat a + 24 + unat (size_m (blocks s a)) \<le> unat c \<or>
          unat c + 24 + unat (size_m (blocks s c)) \<le> unat a))"

subsection \<open>Concrete states\<close>

text \<open>
  \<open>carve block sz\<close> is the four assignments with which \<^verbatim>\<open>request_space\<close> fills a new
  record.
\<close>

definition carve :: "addr \<Rightarrow> size_t \<Rightarrow> heap \<Rightarrow> heap" where
  "carve block sz s =
     set_magic block 0x12345678 (set_free block 0 (set_next block NULL (set_size block sz s)))"

text \<open>
  An empty heap whose break is at \<open>0x1000\<close>, every byte of memory being \<open>0xAA\<close>; the
  operating system grants every request in \<open>ex_empty\<close> and none in \<open>ex_full\<close>.
\<close>

definition ex_empty :: heap where
  "ex_empty = \<lparr>global_base = NULL, mem = (\<lambda>a. 0xAA), brk = 0x1000,
     sbrk_grants = (\<lambda>b i. True), sbrk_calls = 0, malloc_calls = 0\<rparr>"

definition ex_full :: heap where
  "ex_full = ex_empty\<lparr>sbrk_grants := (\<lambda>b i. False)\<rparr>"

text \<open>
  \<open>ex_one\<close> is \<open>ex_empty\<close> after \<^verbatim>\<open>malloc(16)\<close>, which returns \<open>0x1018\<close>;
  \<open>ex_one_freed\<close> is that state after \<^verbatim>\<open>free(0x1018)\<close>. \<open>ex_one_full\<close> is \<open>ex_one\<close> with
  an operating system that grants nothing more.
\<close>

definition ex_one :: heap where
  "ex_one = carve 0x1000 16
     (ex_empty\<lparr>global_base := 0x1000, brk := 0x1028, sbrk_calls := 2, malloc_calls := 1\<rparr>)"

definition ex_one_freed :: heap where
  "ex_one_freed = set_free_magic 0x1000 1 0x55555555 ex_one"

definition ex_one_full :: heap where
  "ex_one_full = ex_one\<lparr>sbrk_grants := (\<lambda>b i. False)\<rparr>"

text \<open>\<open>ex_two\<close> is \<open>ex_one\<close> after a second \<^verbatim>\<open>malloc(16)\<close>, which returns \<open>0x1040\<close>.\<close>

definition ex_two :: heap where
  "ex_two = carve 0x1028 16 (set_next 0x1000 0x1028
     (ex_one\<lparr>brk := 0x1050, sbrk_calls := 4, malloc_calls := 2\<rparr>))"

text \<open>
  \<open>ex_big\<close> is \<open>ex_empty\<close> after \<^verbatim>\<open>malloc(32)\<close>, which returns \<open>0x1018\<close>;
  \<open>ex_big_freed\<close> is that state after \<^verbatim>\<open>free(0x1018)\<close>, and \<open>ex_big_reused\<close> the state
  after a following \<^verbatim>\<open>malloc(16)\<close>, which returns \<open>0x1018\<close> again.
\<close>

definition ex_big :: heap where
  "ex_big = carve 0x1000 32
     (ex_empty\<lparr>global_base := 0x1000, brk := 0x1038, sbrk_calls := 2, malloc_calls := 1\<rparr>)"

definition ex_big_freed :: heap where
  "ex_big_freed = set_free_magic 0x1000 1 0x55555555 ex_big"

definition ex_big_reused :: heap where
  "ex_big_reused = set_free_magic 0x1000 0 0x77777777 (ex_big_freed\<lparr>malloc_calls := 2\<rparr>)"

text \<open>
  \<open>ex_one_more\<close> is \<open>ex_one\<close> after \<^verbatim>\<open>malloc(32)\<close>, which returns \<open>0x1040\<close>, and
  \<open>ex_grown\<close> is \<open>ex_one\<close> after \<^verbatim>\<open>realloc(0x1018, 32)\<close>, which returns \<open>0x1040\<close> too:
  the \<^verbatim>\<open>malloc\<close>, then the copy of 16 bytes, then \<^verbatim>\<open>free(0x1018)\<close>.
\<close>

definition ex_one_more :: heap where
  "ex_one_more = carve 0x1028 32 (set_next 0x1000 0x1028
     (ex_one\<lparr>brk := 0x1060, sbrk_calls := 4, malloc_calls := 2\<rparr>))"

definition ex_grown :: heap where
  "ex_grown = set_free_magic 0x1000 1 0x55555555
     (ex_one_more\<lparr>mem := memcpy_bytes 0x1040 0x1018 16 (mem ex_one_more)\<rparr>)"

text \<open>
  Requests whose \<^verbatim>\<open>size + META_SIZE\<close> wraps around. \<open>ex_minus_one\<close> is \<open>ex_empty\<close> after
  \<^verbatim>\<open>malloc(SIZE_MAX)\<close>, \<^verbatim>\<open>SIZE_MAX\<close> being \<open>0xFFFFFFFFFFFFFFFF\<close>: the increment is 23, the break moves to \<open>0x1017\<close>, one byte
  short of the end of the record at \<open>0x1000\<close>, and \<open>0x1018\<close> is returned.
  \<open>ex_clobbered\<close> is that state after a following \<^verbatim>\<open>malloc(16)\<close>, which puts its record
  at the break \<open>0x1017\<close> and returns \<open>0x102F\<close>.
\<close>

definition ex_minus_one :: heap where
  "ex_minus_one = carve 0x1000 0xFFFFFFFFFFFFFFFF
     (ex_empty\<lparr>global_base := 0x1000, brk := 0x1017, sbrk_calls := 2, malloc_calls := 1\<rparr>)"

definition ex_clobbered :: heap where
  "ex_clobbered = carve 0x1017 16 (set_next 0x1000 0x1017
     (ex_minus_one\<lparr>brk := 0x103F, sbrk_calls := 4, malloc_calls := 2\<rparr>))"

text \<open>
  \<open>ex_short\<close> is \<open>ex_empty\<close> after \<^verbatim>\<open>malloc(SIZE_MAX - 15)\<close>: the increment is 8, the
  break moves to \<open>0x1008\<close>, and \<open>0x1018\<close> is returned. \<open>ex_short_two\<close> is that state
  after \<^verbatim>\<open>malloc(16)\<close>, which puts its record at \<open>0x1008\<close> and returns \<open>0x1020\<close>;
  \<open>ex_short_freed\<close> follows by \<^verbatim>\<open>free(0x1020)\<close> and \<open>ex_short_scan\<close> by \<^verbatim>\<open>malloc(8)\<close>.
\<close>

definition ex_short :: heap where
  "ex_short = carve 0x1000 0xFFFFFFFFFFFFFFF0
     (ex_empty\<lparr>global_base := 0x1000, brk := 0x1008, sbrk_calls := 2, malloc_calls := 1\<rparr>)"

definition ex_short_two :: heap where
  "ex_short_two = carve 0x1008 16 (set_next 0x1000 0x1008
     (ex_short\<lparr>brk := 0x1030, sbrk_calls := 4, malloc_calls := 2\<rparr>))"

definition ex_short_freed :: heap where
  "ex_short_freed = set_free_magic 0x1008 1 0x55555555 ex_short_two"

definition ex_short_scan :: heap where
  "ex_short_scan = set_free_magic 0x10 0 0x77777777 (ex_short_freed\<lparr>malloc_calls := 3\<rparr>)"

text \<open>
  A request whose \<^verbatim>\<open>size + META_SIZE\<close> is negative as an \<^verbatim>\<open>intptr_t\<close>. \<open>ex_back\<close> is
  \<open>ex_one\<close> after \<^verbatim>\<open>malloc(SIZE_MAX - 39)\<close>: the increment is \<open>-16\<close>, the break moves
  back to \<open>0x1018\<close>, the first byte of the region of the first record, and \<open>0x1040\<close>
  is returned. \<open>ex_back_more\<close> is that state after \<^verbatim>\<open>malloc(32)\<close>, which puts its
  record at the break and returns \<open>0x1030\<close>, and \<open>ex_back_grown\<close> is \<open>ex_back\<close> after
  \<^verbatim>\<open>realloc(0x1018, 32)\<close>.
\<close>

definition ex_back :: heap where
  "ex_back = carve 0x1028 0xFFFFFFFFFFFFFFD8 (set_next 0x1000 0x1028
     (ex_one\<lparr>brk := 0x1018, sbrk_calls := 4, malloc_calls := 2\<rparr>))"

definition ex_back_more :: heap where
  "ex_back_more = carve 0x1018 32 (set_next 0x1028 0x1018
     (ex_back\<lparr>brk := 0x1050, sbrk_calls := 6, malloc_calls := 3\<rparr>))"

definition ex_back_grown :: heap where
  "ex_back_grown = set_free_magic 0x1000 1 0x55555555
     (ex_back_more\<lparr>mem := memcpy_bytes 0x1030 0x1018 16 (mem ex_back_more)\<rparr>)"

section \<open>Lemmas\<close>

subsection \<open>Bytes\<close>

lemma length_le_bytes [simp]: "length (le_bytes k n) = k"
  by (induction k arbitrary: n) auto

lemma unat_byte_of_nat: "unat (of_nat n :: byte) = n mod 256"
  by (simp add: unat_of_nat)

lemma le_nat_le_bytes: "le_nat (le_bytes k n) = n mod 256 ^ k"
proof (induction k arbitrary: n)
  case 0
  then show ?case by simp
next
  case (Suc k)
  have "le_nat (le_bytes (Suc k) n) = n mod 256 + 256 * ((n div 256) mod 256 ^ k)"
    by (simp add: Suc.IH unat_byte_of_nat)
  also have "\<dots> = n mod (256 * 256 ^ k)"
    by (simp add: mod_mult2_eq)
  finally show ?case by simp
qed

lemma unat_offset: "i < 2 ^ 64 \<Longrightarrow> unat ((a :: addr) + of_nat i - a) = i"
  by (simp add: unat_of_nat)

lemma read_write_same:
  assumes "length bs < 2 ^ 64"
  shows "read_bytes (write_bytes a bs m) a (length bs) = bs"
proof (rule nth_equalityI)
  show "length (read_bytes (write_bytes a bs m) a (length bs)) = length bs"
    by (simp add: read_bytes_def)
next
  fix i assume "i < length (read_bytes (write_bytes a bs m) a (length bs))"
  then have i: "i < length bs" by (simp add: read_bytes_def)
  with assms have "unat (a + of_nat i - a) = i" by (simp add: unat_of_nat)
  with i show "read_bytes (write_bytes a bs m) a (length bs) ! i = bs ! i"
    by (simp add: read_bytes_def write_bytes_def)
qed

lemma in_span_offset: "i < k \<Longrightarrow> a + of_nat i \<in> span a k"
proof -
  assume "i < k"
  moreover have "unat (of_nat i :: addr) \<le> i" by (simp add: unat_of_nat)
  ultimately show ?thesis by (simp add: span_def)
qed

lemma read_bytes_cong:
  assumes "\<And>x. x \<in> span a k \<Longrightarrow> m' x = m x"
  shows "read_bytes m' a k = read_bytes m a k"
  using assms by (simp add: read_bytes_def in_span_offset)

lemma write_bytes_outside: "x \<notin> span a (length bs) \<Longrightarrow> write_bytes a bs m x = m x"
  by (simp add: span_def write_bytes_def)

lemma load64_store64_same [simp]: "load64 (store64 a v m) a = v"
proof -
  have "read_bytes (store64 a v m) a 8 = le_bytes 8 (unat v)"
    using read_write_same [of "le_bytes 8 (unat v)" a m] by (simp add: store64_def)
  then have "load64 (store64 a v m) a = of_nat (unat v mod 256 ^ 8)"
    by (simp add: load64_def le_nat_le_bytes)
  also have "unat v mod 256 ^ 8 = unat v"
    using unsigned_less [of v, where ?'a = nat] by simp
  finally show ?thesis by simp
qed

lemma load32_store32_same [simp]: "load32 (store32 a v m) a = v"
proof -
  have "read_bytes (store32 a v m) a 4 = le_bytes 4 (unat v)"
    using read_write_same [of "le_bytes 4 (unat v)" a m] by (simp add: store32_def)
  then have "load32 (store32 a v m) a = of_nat (unat v mod 256 ^ 4)"
    by (simp add: load32_def le_nat_le_bytes)
  also have "unat v mod 256 ^ 4 = unat v"
    using unsigned_less [of v, where ?'a = nat] by simp
  finally show ?thesis by simp
qed

lemma store64_outside: "x \<notin> span a 8 \<Longrightarrow> store64 a v m x = m x"
  by (simp add: store64_def write_bytes_outside)

lemma store32_outside: "x \<notin> span a 4 \<Longrightarrow> store32 a v m x = m x"
  by (simp add: store32_def write_bytes_outside)

lemma load64_cong: "(\<And>x. x \<in> span a 8 \<Longrightarrow> m' x = m x) \<Longrightarrow> load64 m' a = load64 m a"
  by (simp add: load64_def read_bytes_cong [of a 8 m' m])

lemma load32_cong: "(\<And>x. x \<in> span a 4 \<Longrightarrow> m' x = m x) \<Longrightarrow> load32 m' a = load32 m a"
  by (simp add: load32_def read_bytes_cong [of a 4 m' m])

lemma in_span_nat:
  assumes "unat a + n \<le> 2 ^ 64"
  shows "x \<in> span a n \<longleftrightarrow> unat a \<le> unat x \<and> unat x < unat a + n"
proof (cases "unat a \<le> unat x")
  case True
  then have "unat (x - a) = unat x - unat a" by (simp add: unat_sub_if_size)
  with True show ?thesis by (auto simp: span_def)
next
  case False
  then have "unat (x - a) = unat x + 2 ^ 64 - unat a"
    by (simp add: unat_sub_if_size word_size)
  with False assms show ?thesis by (auto simp: span_def)
qed

lemma span_shift: "x \<in> span (a + d) k \<longleftrightarrow> x - a \<in> span d k"
  by (simp add: span_def diff_diff_eq)

lemma span_disjoint:
  assumes "unat a + k \<le> unat c" and "unat c + l \<le> 2 ^ 64"
  shows "span a k \<inter> span c l = {}"
proof -
  from assms have "unat a + k \<le> 2 ^ 64" by simp
  then show ?thesis using assms by (auto simp: in_span_nat)
qed

lemma span_sub:
  assumes "unat d + k \<le> n" and "n \<le> 2 ^ 64"
  shows "span (a + d) k \<subseteq> span a n"
proof
  fix x assume "x \<in> span (a + d) k"
  then have "x - a \<in> span d k" by (simp add: span_shift)
  moreover from assms have "unat d + k \<le> 2 ^ 64" by simp
  ultimately have "unat (x - a) < unat d + k" by (simp add: in_span_nat)
  with assms show "x \<in> span a n" by (simp add: span_def)
qed

lemma span_offsets_disjoint:
  assumes "unat d + k \<le> unat e" and "unat e + l \<le> 2 ^ 64"
  shows "span (a + d) k \<inter> span (a + e) l = {}"
proof -
  have "span d k \<inter> span e l = {}" using assms by (rule span_disjoint)
  then show ?thesis by (auto simp: span_shift)
qed

subsection \<open>Records\<close>

lemma unat_OFF [simp]:
  "unat OFF_size = 0" "unat OFF_next = 8" "unat OFF_free = 16" "unat OFF_magic = 20"
  by (simp_all add: OFF_size_def OFF_next_def OFF_free_def OFF_magic_def)

lemma load64_store64_off:
  assumes "unat d + 8 \<le> unat e \<or> unat e + 8 \<le> unat d"
    and "unat d + 8 \<le> 2 ^ 64" and "unat e + 8 \<le> 2 ^ 64"
  shows "load64 (store64 (a + e) v m) (a + d) = load64 m (a + d)"
proof (rule load64_cong)
  fix x assume "x \<in> span (a + d) 8"
  moreover have "span (a + d) 8 \<inter> span (a + e) 8 = {}"
    using assms span_offsets_disjoint [of d 8 e 8 a] span_offsets_disjoint [of e 8 d 8 a] by auto
  ultimately have "x \<notin> span (a + e) 8" by auto
  then show "store64 (a + e) v m x = m x" by (rule store64_outside)
qed

lemma load64_store32_off:
  assumes "unat d + 8 \<le> unat e \<or> unat e + 4 \<le> unat d"
    and "unat d + 8 \<le> 2 ^ 64" and "unat e + 4 \<le> 2 ^ 64"
  shows "load64 (store32 (a + e) v m) (a + d) = load64 m (a + d)"
proof (rule load64_cong)
  fix x assume "x \<in> span (a + d) 8"
  moreover have "span (a + d) 8 \<inter> span (a + e) 4 = {}"
    using assms span_offsets_disjoint [of d 8 e 4 a] span_offsets_disjoint [of e 4 d 8 a] by auto
  ultimately have "x \<notin> span (a + e) 4" by auto
  then show "store32 (a + e) v m x = m x" by (rule store32_outside)
qed

lemma load32_store64_off:
  assumes "unat d + 4 \<le> unat e \<or> unat e + 8 \<le> unat d"
    and "unat d + 4 \<le> 2 ^ 64" and "unat e + 8 \<le> 2 ^ 64"
  shows "load32 (store64 (a + e) v m) (a + d) = load32 m (a + d)"
proof (rule load32_cong)
  fix x assume "x \<in> span (a + d) 4"
  moreover have "span (a + d) 4 \<inter> span (a + e) 8 = {}"
    using assms span_offsets_disjoint [of d 4 e 8 a] span_offsets_disjoint [of e 8 d 4 a] by auto
  ultimately have "x \<notin> span (a + e) 8" by auto
  then show "store64 (a + e) v m x = m x" by (rule store64_outside)
qed

lemma load32_store32_off:
  assumes "unat d + 4 \<le> unat e \<or> unat e + 4 \<le> unat d"
    and "unat d + 4 \<le> 2 ^ 64" and "unat e + 4 \<le> 2 ^ 64"
  shows "load32 (store32 (a + e) v m) (a + d) = load32 m (a + d)"
proof (rule load32_cong)
  fix x assume "x \<in> span (a + d) 4"
  moreover have "span (a + d) 4 \<inter> span (a + e) 4 = {}"
    using assms span_offsets_disjoint [of d 4 e 4 a] span_offsets_disjoint [of e 4 d 4 a] by auto
  ultimately have "x \<notin> span (a + e) 4" by auto
  then show "store32 (a + e) v m x = m x" by (rule store32_outside)
qed

lemmas load_store_off = load64_store64_off load64_store32_off load32_store64_off load32_store32_off

lemma blocks_set_size [simp]: "blocks (set_size b v s) b = (blocks s b)\<lparr>size_m := v\<rparr>"
  by (simp add: blocks_def read_meta_def set_size_def load_store_off)

lemma blocks_set_next [simp]: "blocks (set_next b v s) b = (blocks s b)\<lparr>next_m := v\<rparr>"
  by (simp add: blocks_def read_meta_def set_next_def load_store_off)

lemma blocks_set_free [simp]: "blocks (set_free b v s) b = (blocks s b)\<lparr>free_m := v\<rparr>"
  by (simp add: blocks_def read_meta_def set_free_def load_store_off)

lemma blocks_set_magic [simp]: "blocks (set_magic b v s) b = (blocks s b)\<lparr>magic_m := v\<rparr>"
  by (simp add: blocks_def read_meta_def set_magic_def load_store_off)

lemma field_in_header:
  "span (a + OFF_size) 8 \<subseteq> header a" "span (a + OFF_next) 8 \<subseteq> header a"
  "span (a + OFF_free) 4 \<subseteq> header a" "span (a + OFF_magic) 4 \<subseteq> header a"
  unfolding header_def by (rule span_sub; simp)+

lemma blocks_cong:
  assumes "\<And>x. x \<in> header a \<Longrightarrow> mem s' x = mem s x"
  shows "blocks s' a = blocks s a"
proof -
  have "load64 (mem s') (a + OFF_size) = load64 (mem s) (a + OFF_size)"
    "load64 (mem s') (a + OFF_next) = load64 (mem s) (a + OFF_next)"
    "load32 (mem s') (a + OFF_free) = load32 (mem s) (a + OFF_free)"
    "load32 (mem s') (a + OFF_magic) = load32 (mem s) (a + OFF_magic)"
    using assms field_in_header [of a]
    by (auto intro!: load64_cong load32_cong)
  then show ?thesis by (simp add: blocks_def read_meta_def)
qed

lemma mem_set_outside:
  assumes "x \<notin> header b"
  shows "mem (set_size b v s) x = mem s x" "mem (set_next b w s) x = mem s x"
    "mem (set_free b f s) x = mem s x" "mem (set_magic b f s) x = mem s x"
  using assms field_in_header [of b]
  by (auto simp: set_size_def set_next_def set_free_def set_magic_def
      intro!: store64_outside store32_outside)

lemma blocks_set_other:
  assumes "header a \<inter> header b = {}"
  shows "blocks (set_size b v s) a = blocks s a" "blocks (set_next b w s) a = blocks s a"
    "blocks (set_free b f s) a = blocks s a" "blocks (set_magic b f s) a = blocks s a"
  using assms by (auto intro!: blocks_cong mem_set_outside)

lemma set_fields [simp]:
  "global_base (set_size b v s) = global_base s" "global_base (set_next b w s) = global_base s"
  "global_base (set_free b f s) = global_base s" "global_base (set_magic b f s) = global_base s"
  "brk (set_size b v s) = brk s" "brk (set_next b w s) = brk s"
  "brk (set_free b f s) = brk s" "brk (set_magic b f s) = brk s"
  "sbrk_grants (set_size b v s) = sbrk_grants s" "sbrk_grants (set_next b w s) = sbrk_grants s"
  "sbrk_grants (set_free b f s) = sbrk_grants s" "sbrk_grants (set_magic b f s) = sbrk_grants s"
  "sbrk_calls (set_size b v s) = sbrk_calls s" "sbrk_calls (set_next b w s) = sbrk_calls s"
  "sbrk_calls (set_free b f s) = sbrk_calls s" "sbrk_calls (set_magic b f s) = sbrk_calls s"
  "malloc_calls (set_size b v s) = malloc_calls s" "malloc_calls (set_next b w s) = malloc_calls s"
  "malloc_calls (set_free b f s) = malloc_calls s" "malloc_calls (set_magic b f s) = malloc_calls s"
  by (simp_all add: set_size_def set_next_def set_free_def set_magic_def)

subsection \<open>Chains and the scan\<close>

lemma blocks_calls [simp]: "blocks (s\<lparr>malloc_calls := k\<rparr>) = blocks s"
  by (rule ext) (simp add: blocks_def)

lemma blocks_mem_eq: "mem s' = mem s \<Longrightarrow> blocks s' = blocks s"
  by (rule ext) (simp add: blocks_def)

lemma blocks_carve_same [simp]:
  "blocks (carve b sz s) b = \<lparr>size_m = sz, next_m = NULL, free_m = 0, magic_m = 0x12345678\<rparr>"
  by (simp add: carve_def blocks_set_other)

lemma blocks_set_free_magic_same [simp]:
  "blocks (set_free_magic b f g s) b = (blocks s b)\<lparr>free_m := f, magic_m := g\<rparr>"
  by (simp add: set_free_magic_def)

lemma mem_carve_outside: "x \<notin> header b \<Longrightarrow> mem (carve b sz s) x = mem s x"
  by (simp add: carve_def mem_set_outside)

lemma mem_set_free_magic_outside: "x \<notin> header b \<Longrightarrow> mem (set_free_magic b f g s) x = mem s x"
  by (simp add: set_free_magic_def mem_set_outside)

lemma blocks_carve_other: "header a \<inter> header b = {} \<Longrightarrow> blocks (carve b sz s) a = blocks s a"
  by (auto intro!: blocks_cong mem_carve_outside)

lemma blocks_set_free_magic_other:
  "header a \<inter> header b = {} \<Longrightarrow> blocks (set_free_magic b f g s) a = blocks s a"
  by (auto intro!: blocks_cong mem_set_free_magic_outside)

lemma carve_fields [simp]:
  "global_base (carve b sz s) = global_base s" "brk (carve b sz s) = brk s"
  "sbrk_grants (carve b sz s) = sbrk_grants s" "sbrk_calls (carve b sz s) = sbrk_calls s"
  "malloc_calls (carve b sz s) = malloc_calls s"
  by (simp_all add: carve_def)

lemma set_free_magic_fields [simp]:
  "global_base (set_free_magic b f g s) = global_base s" "brk (set_free_magic b f g s) = brk s"
  "sbrk_grants (set_free_magic b f g s) = sbrk_grants s"
  "sbrk_calls (set_free_magic b f g s) = sbrk_calls s"
  "malloc_calls (set_free_magic b f g s) = malloc_calls s"
  by (simp_all add: set_free_magic_def)

lemma chain_from_cong:
  "\<forall>a\<in>set as. next_m (blocks s' a) = next_m (blocks s a) \<Longrightarrow>
   chain_from s' c as = chain_from s c as"
  by (induction as arbitrary: c) auto

lemma chain_from_NULL_notin: "chain_from s c as \<Longrightarrow> NULL \<notin> set as"
  by (induction as arbitrary: c) auto

lemma chain_from_unique: "chain_from s c as \<Longrightarrow> chain_from s c bs \<Longrightarrow> as = bs"
proof (induction as arbitrary: c bs)
  case Nil
  then show ?case by (cases bs) auto
next
  case (Cons a as)
  then show ?case by (cases bs) auto
qed

lemma chain_from_suffix:
  "chain_from s c (xs @ b # ys) \<Longrightarrow> chain_from s b (b # ys)"
  by (induction xs arbitrary: c) auto

lemma chain_from_head_notin_tail:
  assumes "chain_from s c (a # as)"
  shows "a \<notin> set as"
proof
  assume "a \<in> set as"
  then obtain xs ys where as: "as = xs @ a # ys"
    by (auto simp: in_set_conv_decomp)
  from assms have "chain_from s a (a # as)" by auto
  moreover from assms as have "chain_from s c ((a # xs) @ a # ys)" by auto
  then have "chain_from s a (a # ys)" by (rule chain_from_suffix)
  ultimately have "a # as = a # ys" by (rule chain_from_unique)
  with as show False by simp
qed

lemma chain_from_distinct: "chain_from s c as \<Longrightarrow> distinct as"
proof (induction as arbitrary: c)
  case Nil
  then show ?case by simp
next
  case (Cons a as)
  from Cons.prems have "a \<notin> set as" by (rule chain_from_head_notin_tail)
  moreover from Cons.prems have "chain_from s (next_m (blocks s a)) as" by auto
  then have "distinct as" by (rule Cons.IH)
  ultimately show ?case by simp
qed

lemma find_loop_none:
  "chain_from s c as \<Longrightarrow> \<forall>a\<in>set as. \<not> fits s sz a \<Longrightarrow>
   find_free_block_loop s sz l c = Some (last (l # as), NULL)"
proof (induction as arbitrary: l c)
  case Nil
  then show ?case by (subst find_free_block_loop.simps) simp
next
  case (Cons a as)
  from Cons.prems have c: "c = a" "a \<noteq> NULL" "chain_from s (next_m (blocks s a)) as"
    and nf: "\<not> fits s sz a" "\<forall>x\<in>set as. \<not> fits s sz x"
    by auto
  have "find_free_block_loop s sz l c = find_free_block_loop s sz a (next_m (blocks s a))"
    using c nf by (subst find_free_block_loop.simps) (simp add: fits_def)
  also have "\<dots> = Some (last (a # as), NULL)"
    using c(3) nf(2) by (rule Cons.IH)
  finally show ?case by simp
qed

lemma find_loop_found:
  "chain_from s c (pre @ b # post) \<Longrightarrow> \<forall>a\<in>set pre. \<not> fits s sz a \<Longrightarrow> fits s sz b \<Longrightarrow>
   find_free_block_loop s sz l c = Some (last (l # pre), b)"
proof (induction pre arbitrary: l c)
  case Nil
  then show ?case by (subst find_free_block_loop.simps) (simp add: fits_def)
next
  case (Cons a pre)
  from Cons.prems have c: "c = a" "a \<noteq> NULL"
      "chain_from s (next_m (blocks s a)) (pre @ b # post)"
    and nf: "\<not> fits s sz a" "\<forall>x\<in>set pre. \<not> fits s sz x"
    by auto
  have "find_free_block_loop s sz l c = find_free_block_loop s sz a (next_m (blocks s a))"
    using c nf by (subst find_free_block_loop.simps) (simp add: fits_def)
  also have "\<dots> = Some (last (a # pre), b)"
    using c(3) nf(2) Cons.prems(3) by (rule Cons.IH)
  finally show ?case by simp
qed

lemma chain_from_snoc:
  assumes "chain_from s c as" and "block \<noteq> NULL" and "block \<notin> set as"
    and "next_m (blocks s' block) = NULL"
    and "as \<noteq> [] \<Longrightarrow> next_m (blocks s' (last as)) = block"
    and "\<And>a. a \<in> set as \<Longrightarrow> a \<noteq> last as \<Longrightarrow> next_m (blocks s' a) = next_m (blocks s a)"
  shows "chain_from s' (if as = [] then block else c) (as @ [block])"
  using assms(1,3,5,6)
proof (induction as arbitrary: c)
  case Nil
  then show ?case using assms(2,4) by simp
next
  case (Cons a rest)
  from Cons.prems(1) have c: "c = a" "a \<noteq> NULL" and rest: "chain_from s (next_m (blocks s a)) rest"
    by auto
  show ?case
  proof (cases "rest = []")
    case True
    with Cons.prems(3) have "next_m (blocks s' a) = block" by simp
    with True c assms(2,4) show ?thesis by simp
  next
    case nonempty: False
    from Cons.prems(1) have "a \<notin> set rest" by (rule chain_from_head_notin_tail)
    moreover from nonempty have "last rest \<in> set rest" by simp
    ultimately have "a \<noteq> last (a # rest)" using nonempty by auto
    then have nx: "next_m (blocks s' a) = next_m (blocks s a)" using Cons.prems(4) by simp
    have "chain_from s' (if rest = [] then block else next_m (blocks s a)) (rest @ [block])"
    proof (rule Cons.IH [OF rest])
      show "block \<notin> set rest" using Cons.prems(2) by simp
      show "next_m (blocks s' (last rest)) = block" if "rest \<noteq> []"
        using that Cons.prems(3) by simp
      show "next_m (blocks s' x) = next_m (blocks s x)" if "x \<in> set rest" "x \<noteq> last rest" for x
        using that nonempty Cons.prems(4) [of x] by simp
    qed
    with nonempty nx c show ?thesis by simp
  qed
qed

lemma chain_from_calls [simp]:
  "chain_from (s\<lparr>malloc_calls := k\<rparr>) c as = chain_from s c as"
  by (rule chain_from_cong) simp

lemma fits_calls [simp]: "fits (s\<lparr>malloc_calls := k\<rparr>) sz a = fits s sz a"
  by (simp add: fits_def)

lemma find_loop_calls [simp]:
  "chain_from s c as \<Longrightarrow>
   find_free_block_loop (s\<lparr>malloc_calls := k\<rparr>) sz l c = find_free_block_loop s sz l c"
proof (cases "\<exists>a\<in>set as. fits s sz a")
  case True
  assume c: "chain_from s c as"
  from True obtain pre b post where
    "as = pre @ b # post" "fits s sz b" "\<forall>a\<in>set pre. \<not> fits s sz a"
    using split_list_first_prop [of as "fits s sz"] by blast
  with c show ?thesis
    using find_loop_found [of s c pre b post sz l]
      find_loop_found [of "s\<lparr>malloc_calls := k\<rparr>" c pre b post sz l]
    by simp
next
  case False
  assume c: "chain_from s c as"
  with False show ?thesis
    using find_loop_none [of s c as sz l]
      find_loop_none [of "s\<lparr>malloc_calls := k\<rparr>" c as sz l]
    by simp
qed

lemma sbrk_fields [simp]:
  "mem (snd (sbrk i s)) = mem s" "global_base (snd (sbrk i s)) = global_base s"
  "malloc_calls (snd (sbrk i s)) = malloc_calls s" "sbrk_calls (snd (sbrk i s)) = sbrk_calls s + 1"
  "sbrk_grants (snd (sbrk i s)) = sbrk_grants s" "fst (sbrk 0 s) = brk s"
  by (simp_all add: sbrk_def Let_def)

lemma request_space_Inr:
  assumes "request_space l sz s = Inr (b, s')" and "b \<noteq> NULL"
  shows "b = brk s"
    and "s' = carve b sz (if l \<noteq> NULL then set_next l b (snd (sbrk (sz + META_SIZE) (snd (sbrk 0 s))))
                          else snd (sbrk (sz + META_SIZE) (snd (sbrk 0 s))))"
  using assms
  by (auto simp: request_space_def carve_def Let_def split_def split: if_splits)

lemma malloc_found:
  assumes "chain_from s (global_base s) (pre @ b # post)"
    and "\<forall>a\<in>set pre. \<not> fits s sz a" and "fits s sz b" and "0 < sz"
  shows "malloc sz s = Some (Inr (b + META_SIZE,
           set_free_magic b 0 0x77777777 (s\<lparr>malloc_calls := malloc_calls s + 1\<rparr>)))"
proof -
  let ?s = "s\<lparr>malloc_calls := malloc_calls s + 1\<rparr>"
  from assms(1) have nn: "global_base s \<noteq> NULL" "b \<noteq> NULL"
    using chain_from_NULL_notin [OF assms(1)] by (cases pre; auto)+
  have "find_free_block_loop ?s sz (global_base s) (global_base s)
        = Some (last (global_base s # pre), b)"
    using assms(1-3) by (intro find_loop_found [where post = post]) simp_all
  moreover from assms(4) have "sz \<noteq> 0" by auto
  ultimately show ?thesis using nn
    by (simp add: malloc_def find_free_block_def Let_def word_le_0_iff)
qed

lemma malloc_none_fits:
  assumes "chain_from s (global_base s) as"
    and "\<forall>a\<in>set as. \<not> fits s sz a" and "0 < sz"
  shows "malloc sz s =
     (case request_space (last (NULL # as)) sz (s\<lparr>malloc_calls := malloc_calls s + 1\<rparr>) of
        Inl f \<Rightarrow> Some (Inl f)
      | Inr (block, s1) \<Rightarrow>
          if block = NULL then Some (Inr (NULL, s1))
          else Some (Inr (block + META_SIZE,
                 if as = [] then s1\<lparr>global_base := block\<rparr> else s1)))"
proof (cases as)
  case Nil
  moreover from assms(3) have "sz \<noteq> 0" by auto
  ultimately show ?thesis using assms(1)
    by (simp add: malloc_def Let_def word_le_0_iff split: sum.splits prod.splits)
next
  case (Cons a rest)
  let ?s = "s\<lparr>malloc_calls := malloc_calls s + 1\<rparr>"
  from Cons assms(1) have nn: "global_base s \<noteq> NULL" by auto
  have "find_free_block_loop ?s sz (global_base s) (global_base s)
        = Some (last (global_base s # as), NULL)"
    using assms(1,2) by (intro find_loop_none) simp_all
  moreover from assms(3) have "sz \<noteq> 0" by auto
  ultimately show ?thesis using nn Cons
    by (simp add: malloc_def find_free_block_def Let_def word_le_0_iff split: sum.splits prod.splits)
qed


lemma get_block_ptr_add [simp]: "get_block_ptr (b + META_SIZE) = b"
  by (simp add: get_block_ptr_def)

lemma malloc_zero: "malloc 0 s = Some (Inr (NULL, s\<lparr>malloc_calls := malloc_calls s + 1\<rparr>))"
  by (simp add: malloc_def Let_def)

lemma malloc_nonnull_pos:
  assumes "malloc sz s = Some (Inr (p, s'))" and "p \<noteq> NULL"
  shows "0 < sz"
proof (rule ccontr)
  assume "\<not> 0 < sz"
  then have "sz = 0" by (simp add: word_gt_0)
  with assms show False by (simp add: malloc_zero)
qed

subsection \<open>The layout of the heap\<close>

lemma heap_ok_chain: "heap_ok s as \<Longrightarrow> chain_from s (global_base s) as"
  by (simp add: heap_ok_def)

lemma heap_ok_below:
  "heap_ok s as \<Longrightarrow> a \<in> set as \<Longrightarrow> unat a + 24 + unat (size_m (blocks s a)) \<le> unat (brk s)"
  by (simp add: heap_ok_def)

lemma unat_lt_2p64: "unat (x :: 64 word) < 2 ^ 64"
  using unsigned_less [of x, where ?'a = nat] by simp

lemma heap_ok_regions:
  assumes "heap_ok s as" and "a \<in> set as" and "c \<in> set as" and "a \<noteq> c"
  shows "span a (24 + unat (size_m (blocks s a))) \<inter> span c (24 + unat (size_m (blocks s c))) = {}"
proof -
  let ?ra = "24 + unat (size_m (blocks s a))" and ?rc = "24 + unat (size_m (blocks s c))"
  from assms(1) have "\<forall>a\<in>set as. \<forall>c\<in>set as. a \<noteq> c \<longrightarrow>
          unat a + 24 + unat (size_m (blocks s a)) \<le> unat c \<or>
          unat c + 24 + unat (size_m (blocks s c)) \<le> unat a"
    by (simp add: heap_ok_def)
  with assms(2-4) have "unat a + 24 + unat (size_m (blocks s a)) \<le> unat c \<or>
          unat c + 24 + unat (size_m (blocks s c)) \<le> unat a" by blast
  then have "unat a + ?ra \<le> unat c \<or> unat c + ?rc \<le> unat a" by arith
  moreover from assms have "unat a + ?ra \<le> 2 ^ 64" "unat c + ?rc \<le> 2 ^ 64"
    using heap_ok_below [of s as a] heap_ok_below [of s as c] unat_lt_2p64 [of "brk s"] by simp_all
  ultimately show ?thesis
    using span_disjoint [of a ?ra c ?rc] span_disjoint [of c ?rc a ?ra] by auto
qed

lemma heap_ok_region_brk:
  assumes "heap_ok s as" and "a \<in> set as" and "unat (brk s) + n \<le> 2 ^ 64"
  shows "span a (24 + unat (size_m (blocks s a))) \<inter> span (brk s) n = {}"
  using heap_ok_below [OF assms(1,2)] assms(3)
    span_disjoint [of a "24 + unat (size_m (blocks s a))" "brk s" n] by simp

lemma header_sub_region: "header a \<subseteq> span a (24 + k)"
  by (auto simp: header_def span_def)

lemma payload_sub_region:
  assumes "n \<le> k" and "24 + k \<le> 2 ^ 64"
  shows "span (a + META_SIZE) n \<subseteq> span a (24 + k)"
  using assms by (intro span_sub) (simp_all add: META_SIZE_def)

lemma header_payload_disjoint:
  assumes "24 + n \<le> 2 ^ 64"
  shows "header a \<inter> span (a + META_SIZE) n = {}"
proof -
  have "span (a + 0) 24 \<inter> span (a + META_SIZE) n = {}"
    using assms by (intro span_offsets_disjoint) (simp_all add: META_SIZE_def)
  then show ?thesis by (simp add: header_def)
qed

lemma heap_ok_headers:
  assumes "heap_ok s as" and "a \<in> set as" and "c \<in> set as" and "a \<noteq> c"
  shows "header a \<inter> header c = {}"
  using heap_ok_regions [OF assms] header_sub_region [of a] header_sub_region [of c] by blast

lemma heap_ok_header_brk:
  assumes "heap_ok s as" and "a \<in> set as" and "unat (brk s) + n \<le> 2 ^ 64"
  shows "header a \<inter> span (brk s) n = {}"
  using heap_ok_region_brk [OF assms] header_sub_region [of a] by blast

lemma heap_ok_brk_notin:
  assumes "heap_ok s as"
  shows "brk s \<notin> set as"
  using heap_ok_below [OF assms, of "brk s"] by auto

lemma heap_ok_not_NULL:
  assumes "heap_ok s as" and "a \<in> set as"
  shows "a + META_SIZE \<noteq> NULL"
proof -
  from heap_ok_below [OF assms] have "unat a + 24 < 2 ^ 64" using unat_lt_2p64 [of "brk s"] by simp
  then have "unat (a + META_SIZE) = unat a + 24"
    using unat_add_lem [of a META_SIZE] by (simp add: META_SIZE_def)
  then show ?thesis by (auto simp: NULL_def)
qed

lemma heap_ok_set_free_magic:
  fixes f g :: c_int
  assumes ok: "heap_ok s as" and b: "b \<in> set as" and m: "mem t = mem s" "global_base t = global_base s"
  defines "s' \<equiv> set_free_magic b f g t"
  shows "blocks s' b = (blocks s b)\<lparr>free_m := f, magic_m := g\<rparr>"
    and "\<And>a. a \<in> set as \<Longrightarrow> a \<noteq> b \<Longrightarrow> blocks s' a = blocks s a"
    and "chain_from s' (global_base s') as"
    and "\<And>x. x \<notin> header b \<Longrightarrow> mem s' x = mem s x"
proof -
  have eq: "blocks t = blocks s" using m(1) by (rule blocks_mem_eq)
  show 1: "blocks s' b = (blocks s b)\<lparr>free_m := f, magic_m := g\<rparr>"
    by (simp add: s'_def eq)
  show 2: "blocks s' a = blocks s a" if "a \<in> set as" "a \<noteq> b" for a
    using heap_ok_headers [OF ok that(1) b that(2)]
    by (simp add: s'_def blocks_set_free_magic_other eq)
  have "\<forall>a\<in>set as. next_m (blocks s' a) = next_m (blocks s a)"
  proof
    fix a assume "a \<in> set as"
    then show "next_m (blocks s' a) = next_m (blocks s a)"
      using 1 2 [of a] by (cases "a = b") simp_all
  qed
  then have "chain_from s' (global_base s) as = chain_from s (global_base s) as"
    by (rule chain_from_cong)
  then show "chain_from s' (global_base s') as"
    using heap_ok_chain [OF ok] by (simp add: s'_def m(2))
  show "mem s' x = mem s x" if "x \<notin> header b" for x
    using that by (simp add: s'_def mem_set_free_magic_outside m(1))
qed

lemma heap_ok_append:
  assumes ok: "heap_ok s as" and nw: "unat (brk s) + 24 \<le> 2 ^ 64"
    and rs: "request_space (last (NULL # as)) sz s1 = Inr (b, s')" and b: "b \<noteq> NULL"
    and m: "mem s1 = mem s" "brk s1 = brk s"
  shows "b = brk s" and "b \<notin> set as"
    and "blocks s' b = \<lparr>size_m = sz, next_m = NULL, free_m = 0, magic_m = 0x12345678\<rparr>"
    and "\<And>a. a \<in> set as \<Longrightarrow>
           blocks s' a = (if a = last as then (blocks s a)\<lparr>next_m := b\<rparr> else blocks s a)"
    and "chain_from s' (if as = [] then b else global_base s) (as @ [b])"
    and "\<And>x. x \<notin> header b \<Longrightarrow> as = [] \<or> x \<notin> header (last as) \<Longrightarrow> mem s' x = mem s x"
    and "global_base s' = global_base s1"
proof -
  let ?l = "last (NULL # as)"
  let ?s2 = "snd (sbrk (sz + META_SIZE) (snd (sbrk 0 s1)))"
  let ?mid = "if ?l \<noteq> NULL then set_next ?l b ?s2 else ?s2"
  note R = request_space_Inr [OF rs b]
  show b_eq: "b = brk s" using R(1) m(2) by simp
  have s': "s' = carve b sz ?mid" using R(2) by simp
  have eq2: "blocks ?s2 = blocks s" by (rule blocks_mem_eq) (simp add: m(1))
  have l: "?l = (if as = [] then NULL else last as)" by simp
  have ln: "as \<noteq> [] \<Longrightarrow> last as \<noteq> NULL"
    using chain_from_NULL_notin [OF heap_ok_chain [OF ok]] last_in_set [of as] by metis
  show notin: "b \<notin> set as" using heap_ok_brk_notin [OF ok] b_eq by simp
  have hb: "header a \<inter> header b = {}" if "a \<in> set as" for a
    using heap_ok_header_brk [OF ok that, of 24] nw by (simp add: header_def b_eq)
  show new: "blocks s' b = \<lparr>size_m = sz, next_m = NULL, free_m = 0, magic_m = 0x12345678\<rparr>"
    by (simp add: s')
  have mid: "blocks ?mid a = (if a = last as then (blocks s a)\<lparr>next_m := b\<rparr> else blocks s a)"
    if a: "a \<in> set as" for a
  proof -
    from a have ne: "as \<noteq> []" by auto
    with ln have lnn: "?l \<noteq> NULL" "?l = last as" by simp_all
    show ?thesis
    proof (cases "a = last as")
      case True
      then show ?thesis using lnn by (simp add: eq2)
    next
      case False
      from ne have "last as \<in> set as" by simp
      with ok a False have "header a \<inter> header (last as) = {}" by (intro heap_ok_headers)
      then show ?thesis using False lnn by (simp add: blocks_set_other eq2)
    qed
  qed
  show old: "blocks s' a = (if a = last as then (blocks s a)\<lparr>next_m := b\<rparr> else blocks s a)"
    if a: "a \<in> set as" for a
    using mid [OF a] hb [OF a] by (simp add: s' blocks_carve_other)
  show "chain_from s' (if as = [] then b else global_base s) (as @ [b])"
  proof (rule chain_from_snoc [OF heap_ok_chain [OF ok] b notin])
    show "next_m (blocks s' b) = NULL" by (simp add: new)
    show "next_m (blocks s' (last as)) = b" if "as \<noteq> []"
      using that old [of "last as"] by simp
    show "next_m (blocks s' a) = next_m (blocks s a)" if "a \<in> set as" "a \<noteq> last as" for a
      using that old [of a] by simp
  qed
  show "mem s' x = mem s x" if "x \<notin> header b" "as = [] \<or> x \<notin> header (last as)" for x
  proof -
    have "mem s' x = mem ?mid x" using that(1) by (simp add: s' mem_carve_outside)
    also have "\<dots> = mem ?s2 x"
      using that(2) by (auto simp: mem_set_outside)
    finally show ?thesis by (simp add: m(1))
  qed
  show "global_base s' = global_base s1" by (simp add: s')
qed

subsection \<open>\<^verbatim>\<open>memcpy\<close>, \<^verbatim>\<open>memset\<close> and success of \<^verbatim>\<open>malloc\<close>\<close>

lemma memcpy_bytes_prefix: "i < n \<Longrightarrow> memcpy_bytes dst src n m (dst + i) = m (src + i)"
  by (simp add: memcpy_bytes_def)

lemma memcpy_bytes_outside: "x \<notin> span dst (unat n) \<Longrightarrow> memcpy_bytes dst src n m x = m x"
  by (simp add: memcpy_bytes_def span_def word_less_nat_alt)

lemma memset_bytes_prefix: "i < n \<Longrightarrow> memset_bytes dst c n m (dst + i) = c"
  by (simp add: memset_bytes_def)

lemma memset_bytes_outside: "x \<notin> span dst (unat n) \<Longrightarrow> memset_bytes dst c n m x = m x"
  by (simp add: memset_bytes_def span_def word_less_nat_alt)

lemma memcpy_Inr:
  "unat dst + unat n \<le> 2 ^ 64 \<Longrightarrow> unat src + unat n \<le> 2 ^ 64 \<Longrightarrow>
   memcpy dst src n m = Inr (memcpy_bytes dst src n m)"
  by (simp add: memcpy_def)

lemma memset_Inr:
  "unat dst + unat n \<le> 2 ^ 64 \<Longrightarrow> memset dst c n m = Inr (memset_bytes dst c n m)"
  by (simp add: memset_def)

lemma in_span_word: "i < n \<Longrightarrow> a + i \<in> span a (unat n)"
  by (simp add: span_def word_less_nat_alt)

lemma get_block_ptr_inv [simp]: "get_block_ptr ptr + META_SIZE = ptr"
  by (simp add: get_block_ptr_def)

lemma request_space_granted:
  assumes "sz + META_SIZE \<noteq> 0" and "sbrk_grants s (brk s) (sz + META_SIZE)"
    and "brk s \<noteq> SBRK_FAILED"
  shows "\<exists>s'. request_space l sz s = Inr (brk s, s')"
  using assms by (simp add: request_space_def sbrk_def Let_def)

lemma unat_plus_META:
  assumes "unat (a :: addr) + 24 < 2 ^ 64"
  shows "unat (a + META_SIZE) = unat a + 24"
  using assms unat_add_lem [of a META_SIZE] by (simp add: META_SIZE_def)


lemma realloc_finish:
  assumes chain: "chain_from s1 (global_base s1) as1"
    and ptr: "ptr \<noteq> NULL" and b: "get_block_ptr ptr \<in> set as1"
    and live: "free_m (blocks s1 (get_block_ptr ptr)) = 0"
      "magic_m (blocks s1 (get_block_ptr ptr)) = 0x77777777 \<or>
       magic_m (blocks s1 (get_block_ptr ptr)) = 0x12345678"
    and hd: "\<And>a. a \<in> set as1 \<Longrightarrow>
       header a \<inter> span q (unat (size_m (blocks s1 (get_block_ptr ptr)))) = {}"
    and hh: "\<And>a. a \<in> set as1 \<Longrightarrow> a \<noteq> get_block_ptr ptr \<Longrightarrow>
       header a \<inter> header (get_block_ptr ptr) = {}"
  shows "\<exists>s'. free ptr (s1\<lparr>mem := memcpy_bytes q ptr (size_m (blocks s1 (get_block_ptr ptr))) (mem s1)\<rparr>)
           = Inr s' \<and>
         (\<forall>i. i < size_m (blocks s1 (get_block_ptr ptr)) \<longrightarrow> mem s' (q + i) = mem s1 (ptr + i)) \<and>
         free_m (blocks s' (get_block_ptr ptr)) = 1 \<and>
         magic_m (blocks s' (get_block_ptr ptr)) = 0x55555555 \<and>
         size_m (blocks s' (get_block_ptr ptr)) = size_m (blocks s1 (get_block_ptr ptr)) \<and>
         chain_from s' (global_base s') as1"
proof -
  let ?b = "get_block_ptr ptr"
  let ?n = "size_m (blocks s1 ?b)"
  let ?s2 = "s1\<lparr>mem := memcpy_bytes q ptr ?n (mem s1)\<rparr>"
  let ?s' = "set_free_magic ?b 1 0x55555555 ?s2"
  have keep: "blocks ?s2 a = blocks s1 a" if "a \<in> set as1" for a
  proof (rule blocks_cong)
    fix x assume "x \<in> header a"
    with hd [OF that] have "x \<notin> span q (unat ?n)" by auto
    then show "mem ?s2 x = mem s1 x" by (simp add: memcpy_bytes_outside)
  qed
  have f: "free ptr ?s2 = Inr ?s'"
    using ptr live keep [OF b] by (auto simp: free_def Let_def)
  have rec: "blocks ?s' ?b = (blocks s1 ?b)\<lparr>free_m := 1, magic_m := 0x55555555\<rparr>"
    using keep [OF b] by simp
  have other: "blocks ?s' a = blocks s1 a" if "a \<in> set as1" "a \<noteq> ?b" for a
    using hh [OF that] keep [OF that(1)] by (simp add: blocks_set_free_magic_other)
  have bytes: "mem ?s' (q + i) = mem s1 (ptr + i)" if "i < ?n" for i
  proof -
    from that have "q + i \<in> span q (unat ?n)" by (rule in_span_word)
    with hd [OF b] have "q + i \<notin> header ?b" by auto
    then have "mem ?s' (q + i) = mem ?s2 (q + i)" by (rule mem_set_free_magic_outside)
    also have "\<dots> = mem s1 (ptr + i)" using that by (simp add: memcpy_bytes_prefix)
    finally show ?thesis .
  qed
  have "\<forall>a\<in>set as1. next_m (blocks ?s' a) = next_m (blocks s1 a)"
  proof
    fix a assume "a \<in> set as1"
    then show "next_m (blocks ?s' a) = next_m (blocks s1 a)"
      using rec other [of a] by (cases "a = ?b") simp_all
  qed
  then have "chain_from ?s' (global_base s1) as1 = chain_from s1 (global_base s1) as1"
    by (rule chain_from_cong)
  with chain have "chain_from ?s' (global_base ?s') as1" by simp
  with f rec bytes show ?thesis by simp
qed

subsection \<open>Failure of \<^verbatim>\<open>sbrk\<close>\<close>

text \<open>
  In \<^verbatim>\<open>request_space\<close> the \<^verbatim>\<open>assert\<close> is evaluated before the failure value is tested.
  \<^verbatim>\<open>sbrk(0)\<close> has returned the break, the failed call has returned \<^verbatim>\<open>(void *)-1\<close>, so the
  assertion fails. The first \<^verbatim>\<open>malloc\<close> of the file tests for failure first and returns
  \<^verbatim>\<open>NULL\<close>. \<^verbatim>\<open>realloc\<close> itself hands a \<^verbatim>\<open>NULL\<close> from \<^verbatim>\<open>malloc\<close> on and changes nothing more.
\<close>

lemma request_space_sbrk_fails:
  assumes "sz + META_SIZE \<noteq> 0" and "\<not> sbrk_grants s (brk s) (sz + META_SIZE)"
    and "brk s \<noteq> SBRK_FAILED"
  shows "request_space l sz s = Inl AssertionFailed"
  using assms by (simp add: request_space_def sbrk_def Let_def)

lemma malloc_simple_sbrk_fails:
  assumes "sz \<noteq> 0" and "\<not> sbrk_grants s (brk s) sz"
  shows "malloc_simple sz s = Inr (NULL, s\<lparr>sbrk_calls := sbrk_calls s + 2\<rparr>)"
  using assms by (simp add: malloc_simple_def sbrk_def Let_def)

lemma realloc_malloc_null:
  assumes "ptr \<noteq> NULL" and "size_m (blocks s (get_block_ptr ptr)) < sz"
    and "malloc sz s = Some (Inr (NULL, s1))"
  shows "realloc ptr sz s = Some (Inr (NULL, s1))"
  using assms by (simp add: realloc_def Let_def)

text \<open>
  So \<^verbatim>\<open>malloc\<close> aborts when the heap has to grow and \<^verbatim>\<open>sbrk\<close> refuses.
\<close>

lemma malloc_sbrk_fails:
  assumes "chain_from s (global_base s) as" and "\<forall>a\<in>set as. \<not> fits s sz a"
    and "0 < sz" and "sz + META_SIZE \<noteq> 0"
    and "\<not> sbrk_grants s (brk s) (sz + META_SIZE)" and "brk s \<noteq> SBRK_FAILED"
  shows "malloc sz s = Some (Inl AssertionFailed)"
proof -
  have "request_space (last (NULL # as)) sz (s\<lparr>malloc_calls := malloc_calls s + 1\<rparr>)
        = Inl AssertionFailed"
    using assms(4-6) by (intro request_space_sbrk_fails) simp_all
  then show ?thesis using malloc_none_fits [OF assms(1-3)] by simp
qed

subsection \<open>The guard of \<^verbatim>\<open>calloc\<close>\<close>

text \<open>
  The guard of \<^verbatim>\<open>calloc\<close> holds exactly when the product of the two arguments is not a
  \<^verbatim>\<open>size_t\<close>; when it does not hold, \<^verbatim>\<open>nelem * elsize\<close> is the product. When
  \<^verbatim>\<open>malloc\<close> returns a region that ends at or below the end of the address space,
  \<^verbatim>\<open>calloc\<close> returns it with every byte 0.
\<close>

lemma unat_SIZE_MAX: "unat SIZE_MAX = 2 ^ 64 - 1"
  by (simp add: SIZE_MAX_def unsigned_minus_1_eq_mask mask_eq_exp_minus_1)

lemma calloc_guard_iff:
  "(0 < nelem \<and> SIZE_MAX div nelem < elsize) = (2 ^ 64 \<le> unat nelem * unat elsize)"
proof (cases "nelem = 0")
  case True
  then show ?thesis by simp
next
  case False
  then have n: "0 < unat nelem" by (simp add: unat_gt_0)
  have "(SIZE_MAX div nelem < elsize) = ((2 ^ 64 - 1) div unat nelem < unat elsize)"
    by (simp add: word_less_nat_alt unat_div unat_SIZE_MAX)
  also have "\<dots> = (2 ^ 64 - 1 < unat elsize * unat nelem)"
    using n by (rule div_less_iff_less_mult)
  also have "\<dots> = (2 ^ 64 \<le> unat nelem * unat elsize)"
    by (auto simp: mult.commute)
  finally show ?thesis using False by (simp add: word_gt_0)
qed

lemma calloc_no_wrap:
  assumes "\<not> (0 < nelem \<and> SIZE_MAX div nelem < elsize)"
  shows "unat (nelem * elsize) = unat nelem * unat elsize"
proof -
  from assms calloc_guard_iff [of nelem elsize]
  have "\<not> 2 ^ 64 \<le> unat nelem * unat elsize" by blast
  then have "unat nelem * unat elsize < 2 ^ 64" by simp
  then show ?thesis using unat_mult_lem [of nelem elsize] by simp
qed

lemma calloc_guard_NULL:
  assumes "0 < nelem \<and> SIZE_MAX div nelem < elsize"
  shows "calloc nelem elsize s = Some (Inr (NULL, s))"
  using assms by (simp add: calloc_def)

lemma calloc_zeroes:
  assumes "\<not> (0 < nelem \<and> SIZE_MAX div nelem < elsize)"
    and "malloc (nelem * elsize) s = Some (Inr (p, s1))" and "p \<noteq> NULL"
    and "unat p + unat (nelem * elsize) \<le> 2 ^ 64"
  shows "calloc nelem elsize s =
           Some (Inr (p, s1\<lparr>mem := memset_bytes p 0 (nelem * elsize) (mem s1)\<rparr>))"
    and "i < nelem * elsize \<Longrightarrow> memset_bytes p 0 (nelem * elsize) (mem s1) (p + i) = 0"
  using assms by (simp_all add: calloc_def Let_def memset_Inr memset_bytes_prefix)

subsection \<open>The layout is kept\<close>

text \<open>
  \<open>heap_ok\<close> holds of the empty heap and is kept by every call that returns, as long as
  no request is so large that the new record with its region would not end below the end
  of the address space; writes into the regions handed out keep it too.
\<close>

lemma heap_ok_empty: "global_base s = NULL \<Longrightarrow> heap_ok s []"
  by (simp add: heap_ok_def)

lemma heap_ok_frame:
  assumes ok: "heap_ok s as"
    and same: "\<And>a x. a \<in> set as \<Longrightarrow> x \<in> header a \<Longrightarrow> mem s' x = mem s x"
    and "brk s' = brk s" and "global_base s' = global_base s"
  shows "heap_ok s' as"
proof -
  have eq: "blocks s' a = blocks s a" if "a \<in> set as" for a
    using same [OF that] by (intro blocks_cong) simp
  then have "chain_from s' (global_base s) as = chain_from s (global_base s) as"
    by (intro chain_from_cong) simp
  with ok assms(3,4) eq show ?thesis by (simp add: heap_ok_def)
qed

lemma heap_ok_set_free_magic_kept:
  assumes ok: "heap_ok s as" and b: "b \<in> set as"
  shows "heap_ok (set_free_magic b f g s) as"
proof -
  note E = heap_ok_set_free_magic [OF ok b refl refl, where f = f and g = g]
  have sz: "size_m (blocks (set_free_magic b f g s) a) = size_m (blocks s a)" if "a \<in> set as" for a
    using E(1) E(2) [OF that] by (cases "a = b") simp_all
  with ok E(3) show ?thesis by (simp add: heap_ok_def)
qed

lemma heap_ok_free:
  assumes "heap_ok s as" and "get_block_ptr ptr \<in> set as" and "free ptr s = Inr s'"
  shows "heap_ok s' as"
proof (cases "ptr = NULL")
  case True
  with assms show ?thesis by (simp add: free_def)
next
  case False
  with assms(3) have "s' = set_free_magic (get_block_ptr ptr) 1 0x55555555 s"
    by (simp add: free_def Let_def split: if_splits)
  with assms(1,2) show ?thesis by (simp add: heap_ok_set_free_magic_kept)
qed

lemma heap_ok_calls [simp]: "heap_ok (s\<lparr>malloc_calls := k\<rparr>) as = heap_ok s as"
  by (simp add: heap_ok_def)

lemma request_space_brk:
  assumes "request_space l sz s = Inr (b, s')" and "b \<noteq> NULL" and "sz + META_SIZE \<noteq> 0"
  shows "brk s' = brk s + (sz + META_SIZE)"
  using assms
  by (auto simp: request_space_def sbrk_def Let_def split: if_splits)

text \<open>
  After a \<^verbatim>\<open>malloc\<close> that returns a region: the heap is laid out well, the record of the
  region is in the chain, in use and large enough.
\<close>

lemma heap_ok_malloc:
  assumes ok: "heap_ok s as" and m: "malloc sz s = Some (Inr (p, s'))" and p: "p \<noteq> NULL"
    and nw: "(\<exists>a\<in>set as. fits s sz a) \<or> unat (brk s) + 24 + unat sz < 2 ^ 64"
  shows "\<exists>as'. heap_ok s' as' \<and> set as \<subseteq> set as' \<and> get_block_ptr p \<in> set as' \<and>
           free_m (blocks s' (get_block_ptr p)) = 0 \<and>
           (magic_m (blocks s' (get_block_ptr p)) = MAGIC_CARVED \<or>
            magic_m (blocks s' (get_block_ptr p)) = MAGIC_RECYCLED) \<and>
           sz \<le> size_m (blocks s' (get_block_ptr p)) \<and>
           (\<forall>a\<in>set as. size_m (blocks s' a) = size_m (blocks s a))"
proof (cases "\<exists>a\<in>set as. fits s sz a")
  case True
  let ?s = "s\<lparr>malloc_calls := malloc_calls s + 1\<rparr>"
  from m p have pos: "0 < sz" by (rule malloc_nonnull_pos)
  from True obtain pre b post where
    as: "as = pre @ b # post" and b: "fits s sz b" and pre: "\<forall>a\<in>set pre. \<not> fits s sz a"
    using split_list_first_prop [of as "fits s sz"] by blast
  from heap_ok_chain [OF ok] as pre b pos
  have "malloc sz s = Some (Inr (b + META_SIZE, set_free_magic b 0 0x77777777 ?s))"
    by (intro malloc_found [where post = post]) simp_all
  with m have eq: "p = b + META_SIZE" "s' = set_free_magic b 0 0x77777777 ?s" by simp_all
  have bin: "b \<in> set as" by (simp add: as)
  have "heap_ok ?s as" using ok by simp
  then have "heap_ok s' as" unfolding eq using bin by (rule heap_ok_set_free_magic_kept)
  moreover have rb: "blocks s' b = (blocks s b)\<lparr>free_m := 0, magic_m := 0x77777777\<rparr>"
    by (simp add: eq)
  moreover have "\<forall>a\<in>set as. size_m (blocks s' a) = size_m (blocks s a)"
  proof
    fix a assume a: "a \<in> set as"
    have "mem ?s = mem s" "global_base ?s = global_base s" by simp_all
    note E = heap_ok_set_free_magic [OF ok bin this, where f = 0 and g = "0x77777777"]
    show "size_m (blocks s' a) = size_m (blocks s a)"
      using E(1) E(2) [OF a] by (cases "a = b") (simp_all add: eq)
  qed
  ultimately show ?thesis using bin b
    by (intro exI [of _ as]) (simp add: eq fits_def MAGIC_RECYCLED_def)
next
  case False
  let ?s = "s\<lparr>malloc_calls := malloc_calls s + 1\<rparr>"
  from m p have pos: "0 < sz" by (rule malloc_nonnull_pos)
  from False nw have room: "unat (brk s) + 24 + unat sz < 2 ^ 64" by blast
  note chain = heap_ok_chain [OF ok]
  from False chain pos m
  have "(case request_space (last (NULL # as)) sz ?s of
        Inl f \<Rightarrow> Some (Inl f)
      | Inr (block, s1) \<Rightarrow>
          if block = NULL then Some (Inr (NULL, s1))
          else Some (Inr (block + META_SIZE,
                 if as = [] then s1\<lparr>global_base := block\<rparr> else s1))) = Some (Inr (p, s'))"
    using malloc_none_fits [of s as sz] by simp
  then obtain blk s1 where rs: "request_space (last (NULL # as)) sz ?s = Inr (blk, s1)"
    and blk: "blk \<noteq> NULL" and eq: "p = blk + META_SIZE"
      "s' = (if as = [] then s1\<lparr>global_base := blk\<rparr> else s1)"
    using p by (auto split: sum.splits prod.splits if_splits)
  from room have nw24: "unat (brk s) + 24 \<le> 2 ^ 64" by simp
  note A = heap_ok_append [OF ok nw24 rs blk, simplified]
  have bl: "blocks s' = blocks s1" by (rule blocks_mem_eq) (simp add: eq)
  have gb: "global_base s' = (if as = [] then blk else global_base s)"
    using A(7) by (simp add: eq)
  have ch: "chain_from s' (global_base s') (as @ [blk])"
    using A(5) chain_from_cong [of "as @ [blk]" s' s1 "global_base s'"] by (simp add: bl gb)
  from room have "unat sz + 24 < 2 ^ 64" by simp
  then have u: "unat (sz + META_SIZE) = unat sz + 24" by (rule unat_plus_META)
  then have nz: "sz + META_SIZE \<noteq> 0" by auto
  have "brk s1 = brk ?s + (sz + META_SIZE)" using rs blk nz by (rule request_space_brk)
  then have "brk s' = brk s + (sz + META_SIZE)" by (simp add: eq)
  moreover have "unat (brk s + (sz + META_SIZE)) = unat (brk s) + unat (sz + META_SIZE)"
    using room u unat_add_lem [of "brk s" "sz + META_SIZE"] by simp
  ultimately have brk': "unat (brk s') = unat (brk s) + 24 + unat sz" using u by simp
  have old: "size_m (blocks s' a) = size_m (blocks s a)" if "a \<in> set as" for a
    using A(4) [OF that] by (simp add: bl)
  have new: "size_m (blocks s' blk) = sz" "free_m (blocks s' blk) = 0"
    "magic_m (blocks s' blk) = MAGIC_CARVED"
    using A(3) by (simp_all add: bl MAGIC_CARVED_def)
  have below: "unat a + 24 + unat (size_m (blocks s a)) \<le> unat (brk s)" if "a \<in> set as" for a
    using ok that by (rule heap_ok_below)
  have apart: "unat a + 24 + unat (size_m (blocks s a)) \<le> unat c \<or>
          unat c + 24 + unat (size_m (blocks s c)) \<le> unat a"
    if "a \<in> set as" "c \<in> set as" "a \<noteq> c" for a c
    using ok that by (simp add: heap_ok_def)
  have "heap_ok s' (as @ [blk])"
    unfolding heap_ok_def
  proof (intro conjI ballI impI)
    show "chain_from s' (global_base s') (as @ [blk])" by (rule ch)
  next
    fix a assume "a \<in> set (as @ [blk])"
    then consider "a \<in> set as" | "a = blk" by auto
    then show "unat a + 24 + unat (size_m (blocks s' a)) \<le> unat (brk s')"
    proof cases
      case 1
      then show ?thesis using below [OF 1] old [OF 1] brk' by simp
    next
      case 2
      then show ?thesis using new(1) brk' A(1) by simp
    qed
  next
    fix a c assume a: "a \<in> set (as @ [blk])" and c: "c \<in> set (as @ [blk])" and ne: "a \<noteq> c"
    from a consider "a \<in> set as" | "a = blk" by auto
    then show "unat a + 24 + unat (size_m (blocks s' a)) \<le> unat c \<or>
          unat c + 24 + unat (size_m (blocks s' c)) \<le> unat a"
    proof cases
      case 1
      from c consider "c \<in> set as" | "c = blk" by auto
      then show ?thesis
      proof cases
        case cin: 1
        with \<open>a \<in> set as\<close> ne show ?thesis using apart [of a c] old by simp
      next
        case 2
        with \<open>a \<in> set as\<close> show ?thesis using below [of a] old [of a] A(1) by simp
      qed
    next
      case 2
      with c ne have "c \<in> set as" by auto
      with 2 show ?thesis using below [of c] old [of c] A(1) by simp
    qed
  qed
  moreover have "get_block_ptr p = blk" by (simp add: eq)
  ultimately show ?thesis using new old by (intro exI [of _ "as @ [blk]"]) auto
qed


text \<open>
  \<^verbatim>\<open>memcpy\<close> and \<^verbatim>\<open>memset\<close> into the region of a record of the chain, not longer than
  its recorded size, and any other write there, touch no record of the chain.
\<close>

lemma heap_ok_region_write:
  assumes ok: "heap_ok s as" and b: "b \<in> set as" and n: "n \<le> unat (size_m (blocks s b))"
    and same: "\<And>x. x \<notin> span (b + META_SIZE) n \<Longrightarrow> m x = mem s x"
  shows "heap_ok (s\<lparr>mem := m\<rparr>) as"
proof (rule heap_ok_frame [OF ok])
  fix a x assume a: "a \<in> set as" and x: "x \<in> header a"
  have lim: "24 + unat (size_m (blocks s b)) \<le> 2 ^ 64"
    using heap_ok_below [OF ok b] unat_lt_2p64 [of "brk s"] by simp
  have "x \<notin> span (b + META_SIZE) n"
  proof (cases "a = b")
    case True
    from n lim have "24 + n \<le> 2 ^ 64" by simp
    then have "header b \<inter> span (b + META_SIZE) n = {}" by (rule header_payload_disjoint)
    with x True show ?thesis by auto
  next
    case False
    with ok a b have "span a (24 + unat (size_m (blocks s a)))
        \<inter> span b (24 + unat (size_m (blocks s b))) = {}" by (intro heap_ok_regions)
    moreover have "span (b + META_SIZE) n \<subseteq> span b (24 + unat (size_m (blocks s b)))"
      using n lim by (rule payload_sub_region)
    ultimately show ?thesis using x header_sub_region [of a] by blast
  qed
  then show "mem (s\<lparr>mem := m\<rparr>) x = mem s x" by (simp add: same)
qed simp_all

lemma heap_ok_calloc:
  assumes ok: "heap_ok s as" and c: "calloc nelem elsize s = Some (Inr (p, s'))"
    and p: "p \<noteq> NULL"
    and nw: "(\<exists>a\<in>set as. fits s (nelem * elsize) a) \<or>
             unat (brk s) + 24 + unat (nelem * elsize) < 2 ^ 64"
  shows "\<exists>as'. heap_ok s' as' \<and> get_block_ptr p \<in> set as' \<and>
           (\<forall>i. i < nelem * elsize \<longrightarrow> mem s' (p + i) = 0)"
proof -
  let ?sz = "nelem * elsize"
  from c p have g: "\<not> (0 < nelem \<and> SIZE_MAX div nelem < elsize)"
    by (auto simp: calloc_def)
  with c p obtain s1 where m: "malloc ?sz s = Some (Inr (p, s1))"
    and mc: "memset p 0 ?sz (mem s1) = Inr (mem s')" and s': "s' = s1\<lparr>mem := mem s'\<rparr>"
    by (auto simp: calloc_def Let_def split: option.splits sum.splits prod.splits if_splits)
  from heap_ok_malloc [OF ok m p nw] obtain as' where ok1: "heap_ok s1 as'"
    and b: "get_block_ptr p \<in> set as'" and le: "?sz \<le> size_m (blocks s1 (get_block_ptr p))"
    by blast
  from mc have ms: "mem s' = memset_bytes p 0 ?sz (mem s1)"
    by (simp add: memset_def split: if_splits)
  have "heap_ok (s1\<lparr>mem := mem s'\<rparr>) as'"
  proof (rule heap_ok_region_write [OF ok1 b])
    show "unat ?sz \<le> unat (size_m (blocks s1 (get_block_ptr p)))"
      using le by (simp add: word_le_nat_alt)
    show "mem s' x = mem s1 x" if "x \<notin> span (get_block_ptr p + META_SIZE) (unat ?sz)" for x
      using that by (simp add: ms memset_bytes_outside)
  qed
  with s' have "heap_ok s' as'" by simp
  moreover have "\<forall>i. i < ?sz \<longrightarrow> mem s' (p + i) = 0"
    by (simp add: ms memset_bytes_prefix)
  ultimately show ?thesis using b by blast
qed


text \<open>
  First-fit reuse on a heap that is laid out well: when the record of \<open>p\<close> is in the
  chain, in use, with a recorded size of at least \<open>n\<close>, and no record before it in the
  chain is free and large enough for \<open>m\<close>, then \<^verbatim>\<open>free(p)\<close> returns and a following
  \<^verbatim>\<open>malloc(m)\<close> with \<open>0 < m \<le> n\<close> returns \<open>p\<close>.
\<close>

lemma first_fit_reuse_laid_out:
  assumes ok: "heap_ok s (pre @ get_block_ptr p # post)"
    and live: "free_m (blocks s (get_block_ptr p)) = 0"
      "magic_m (blocks s (get_block_ptr p)) = MAGIC_CARVED \<or>
       magic_m (blocks s (get_block_ptr p)) = MAGIC_RECYCLED"
    and sz: "n \<le> size_m (blocks s (get_block_ptr p))" and m: "0 < m" "m \<le> n"
    and pre: "\<forall>a\<in>set pre. \<not> fits s m a"
  shows "\<exists>s2 s3. free p s = Inr s2 \<and> malloc m s2 = Some (Inr (p, s3))"
proof -
  let ?b = "get_block_ptr p"
  let ?as = "pre @ ?b # post"
  let ?s2 = "set_free_magic ?b 1 0x55555555 s"
  have b: "?b \<in> set ?as" by simp
  have p: "p \<noteq> NULL" using heap_ok_not_NULL [OF ok b] by simp
  have f: "free p s = Inr ?s2"
    using p live by (auto simp: free_def Let_def MAGIC_CARVED_def MAGIC_RECYCLED_def)
  note E = heap_ok_set_free_magic [OF ok b refl refl, where f = 1 and g = "0x55555555"]
  from heap_ok_chain [OF ok] have "distinct ?as" by (rule chain_from_distinct)
  then have nb: "?b \<notin> set pre" by simp
  have pre2: "\<forall>x\<in>set pre. \<not> fits ?s2 m x"
  proof
    fix x assume x: "x \<in> set pre"
    with nb have "x \<in> set ?as" "x \<noteq> ?b" by auto
    then have "blocks ?s2 x = blocks s x" by (rule E(2))
    with pre x show "\<not> fits ?s2 m x" by (simp add: fits_def)
  qed
  have fit: "fits ?s2 m ?b" using sz m(2) by (simp add: fits_def)
  from E(3) pre2 fit m(1)
  have "malloc m ?s2 = Some (Inr (?b + META_SIZE,
          set_free_magic ?b 0 0x77777777 (?s2\<lparr>malloc_calls := malloc_calls ?s2 + 1\<rparr>)))"
    by (rule malloc_found)
  with f show ?thesis by simp
qed


lemma heap_ok_realloc:
  assumes ok: "heap_ok s as" and b: "get_block_ptr ptr \<in> set as"
    and r: "realloc ptr sz s = Some (Inr (q, s'))" and q: "q \<noteq> NULL"
    and nw: "(\<exists>a\<in>set as. fits s sz a) \<or> unat (brk s) + 24 + unat sz < 2 ^ 64"
  shows "\<exists>as'. heap_ok s' as' \<and> set as \<subseteq> set as'"
proof (cases "sz \<le> size_m (blocks s (get_block_ptr ptr))")
  case True
  have "ptr \<noteq> NULL" using heap_ok_not_NULL [OF ok b] by simp
  with True r have "s' = s" by (simp add: realloc_def Let_def)
  with ok show ?thesis by blast
next
  case False
  let ?b = "get_block_ptr ptr"
  have ptr: "ptr \<noteq> NULL" using heap_ok_not_NULL [OF ok b] by simp
  from False ptr r q obtain s1 m where m: "malloc sz s = Some (Inr (q, s1))"
    and c: "memcpy q ptr (size_m (blocks s1 ?b)) (mem s1) = Inr m"
    and f: "free ptr (s1\<lparr>mem := m\<rparr>) = Inr s'"
    by (auto simp: realloc_def Let_def split: option.splits sum.splits prod.splits if_splits)
  from heap_ok_malloc [OF ok m q nw] obtain as1 where ok1: "heap_ok s1 as1"
    and sub: "set as \<subseteq> set as1" and bq: "get_block_ptr q \<in> set as1"
    and le: "sz \<le> size_m (blocks s1 (get_block_ptr q))"
    and same: "\<forall>a\<in>set as. size_m (blocks s1 a) = size_m (blocks s a)"
    by blast
  let ?n = "size_m (blocks s1 ?b)"
  from c have mm: "m = memcpy_bytes q ptr ?n (mem s1)"
    by (simp add: memcpy_def split: if_splits)
  from same b False have "?n \<le> sz" by simp
  with le have n: "unat ?n \<le> unat (size_m (blocks s1 (get_block_ptr q)))"
    by (simp add: word_le_nat_alt)
  have "heap_ok (s1\<lparr>mem := m\<rparr>) as1"
  proof (rule heap_ok_region_write [OF ok1 bq n])
    show "m x = mem s1 x" if "x \<notin> span (get_block_ptr q + META_SIZE) (unat ?n)" for x
      using that by (simp add: mm memcpy_bytes_outside)
  qed
  moreover from b sub have "?b \<in> set as1" by auto
  ultimately have "heap_ok s' as1" using f by (rule heap_ok_free)
  with sub show ?thesis by blast
qed

subsection \<open>Evaluation on concrete states\<close>

lemma header_disjoint_nat:
  assumes "unat a + 24 \<le> unat b \<or> unat b + 24 \<le> unat a"
    and "unat a + 24 \<le> 2 ^ 64" and "unat b + 24 \<le> 2 ^ 64"
  shows "header a \<inter> header b = {}"
  using assms span_disjoint [of a 24 b 24] span_disjoint [of b 24 a 24]
  by (auto simp: header_def)

lemma upt_8: "[0..<8] = [0, 1, 2, 3, 4, 5, 6, 7]"
  by code_simp

lemma upt_4: "[0..<4] = [0, 1, 2, 3]"
  by code_simp

lemma read_bytes_8: "read_bytes m a 8 = [m a, m (a + 1), m (a + 2), m (a + 3), m (a + 4), m (a + 5), m (a + 6), m (a + 7)]"
  by (simp add: read_bytes_def upt_8)

lemma read_bytes_4: "read_bytes m a 4 = [m a, m (a + 1), m (a + 2), m (a + 3)]"
  by (simp add: read_bytes_def upt_4)

lemma write_bytes_nat:
  assumes "unat a + length bs \<le> 2 ^ 64"
  shows "write_bytes a bs m x =
    (if unat a \<le> unat x \<and> unat x < unat a + length bs then bs ! (unat x - unat a) else m x)"
proof (cases "x \<in> span a (length bs)")
  case True
  with assms have "unat a \<le> unat x" "unat x < unat a + length bs" by (simp_all add: in_span_nat)
  moreover from this have "unat (x - a) = unat x - unat a" by (simp add: unat_sub_if_size)
  moreover from calculation have "unat x - unat a < length bs" by arith
  ultimately show ?thesis by (simp add: write_bytes_def)
next
  case False
  with assms have "\<not> (unat a \<le> unat x \<and> unat x < unat a + length bs)" by (simp add: in_span_nat)
  with False show ?thesis by (auto simp: write_bytes_outside)
qed

lemma le_bytes_nth: "i < k \<Longrightarrow> le_bytes k n ! i = of_nat (n div 256 ^ i mod 256)"
proof (induction k arbitrary: n i)
  case 0
  then show ?case by simp
next
  case (Suc k)
  show ?case
  proof (cases i)
    case 0
    then show ?thesis by simp
  next
    case (Suc j)
    with Suc.prems have "j < k" by simp
    from Suc.IH [OF this, of "n div 256"] Suc show ?thesis
      by (simp add: div_mult2_eq)
  qed
qed

lemma store64_apply:
  assumes "unat a + 8 \<le> 2 ^ 64"
  shows "store64 a v m x =
    (if unat a \<le> unat x \<and> unat x < unat a + 8
     then of_nat (unat v div 256 ^ (unat x - unat a) mod 256) else m x)"
  using assms by (auto simp: store64_def write_bytes_nat intro!: le_bytes_nth)

lemma store32_apply:
  assumes "unat a + 4 \<le> 2 ^ 64"
  shows "store32 a v m x =
    (if unat a \<le> unat x \<and> unat x < unat a + 4
     then of_nat (unat v div 256 ^ (unat x - unat a) mod 256) else m x)"
  using assms by (auto simp: store32_def write_bytes_nat intro!: le_bytes_nth)

lemma load64_bytes: "load64 m a = of_nat (unat (m a) + 256 * (unat (m (a + 1)) + 256 * (unat (m (a + 2)) +
   256 * (unat (m (a + 3)) + 256 * (unat (m (a + 4)) + 256 * (unat (m (a + 5)) +
   256 * (unat (m (a + 6)) + 256 * unat (m (a + 7)))))))))"
  by (simp add: load64_def read_bytes_8)

lemma load32_bytes: "load32 m a = of_nat (unat (m a) + 256 * (unat (m (a + 1)) + 256 * (unat (m (a + 2)) +
   256 * unat (m (a + 3)))))"
  by (simp add: load32_def read_bytes_4)

lemma mem_set [simp]:
  "mem (set_size b v s) = store64 (b + OFF_size) v (mem s)"
  "mem (set_next b v s) = store64 (b + OFF_next) v (mem s)"
  "mem (set_free b f s) = store32 (b + OFF_free) f (mem s)"
  "mem (set_magic b f s) = store32 (b + OFF_magic) f (mem s)"
  by (simp_all add: set_size_def set_next_def set_free_def set_magic_def)

lemmas eval_defs = blocks_def read_meta_def load64_bytes load32_bytes store64_apply store32_apply
  OFF_size_def OFF_next_def OFF_free_def OFF_magic_def carve_def set_free_magic_def
  memcpy_bytes_def memset_bytes_def NULL_def

lemmas ex_defs = ex_empty_def ex_full_def ex_one_def ex_one_freed_def ex_one_full_def ex_two_def
  ex_big_def ex_big_freed_def ex_big_reused_def ex_one_more_def ex_grown_def ex_minus_one_def
  ex_clobbered_def ex_short_def ex_short_two_def ex_short_freed_def ex_short_scan_def
  ex_back_def ex_back_more_def ex_back_grown_def

lemmas op_defs = malloc_def request_space_def sbrk_def NULL_def META_SIZE_def SBRK_FAILED_def
  set_free_magic_def find_free_block_def free_def get_block_ptr_def realloc_def
  calloc_def SIZE_MAX_def Let_def carve_def
  set_size_def set_next_def set_free_def set_magic_def
  OFF_size_def OFF_next_def OFF_free_def OFF_magic_def

lemmas magic_defs = MAGIC_CARVED_def MAGIC_RECYCLED_def MAGIC_RELEASED_def

text \<open>One turn of the loop of \<^verbatim>\<open>find_free_block\<close>.\<close>

lemma find_loop_NULL: "find_free_block_loop s sz l NULL = Some (l, NULL)"
  by (subst find_free_block_loop.simps) simp

lemma find_loop_fit: "fits s sz c \<Longrightarrow> find_free_block_loop s sz l c = Some (l, c)"
  by (subst find_free_block_loop.simps) (simp add: fits_def)

lemma find_loop_step:
  "c \<noteq> NULL \<Longrightarrow> \<not> fits s sz c \<Longrightarrow>
   find_free_block_loop s sz l c = find_free_block_loop s sz c (next_m (blocks s c))"
  by (subst find_free_block_loop.simps) (simp add: fits_def)

text \<open>The records of the concrete states, read from their bytes.\<close>

lemma blocks_ex_one:
  "blocks ex_one 0x1000 = \<lparr>size_m = 16, next_m = 0, free_m = 0, magic_m = 0x12345678\<rparr>"
  by (simp add: ex_defs eval_defs)

lemma blocks_ex_one_freed:
  "blocks ex_one_freed 0x1000 = \<lparr>size_m = 16, next_m = 0, free_m = 1, magic_m = 0x55555555\<rparr>"
  by (simp add: ex_defs eval_defs)


lemma blocks_ex_big:
  "blocks ex_big 0x1000 = \<lparr>size_m = 32, next_m = 0, free_m = 0, magic_m = 0x12345678\<rparr>"
  by (simp add: ex_defs eval_defs)

lemma blocks_ex_big_freed:
  "blocks ex_big_freed 0x1000 = \<lparr>size_m = 32, next_m = 0, free_m = 1, magic_m = 0x55555555\<rparr>"
  by (simp add: ex_defs eval_defs)

lemma blocks_ex_big_reused:
  "blocks ex_big_reused 0x1000 = \<lparr>size_m = 32, next_m = 0, free_m = 0, magic_m = 0x77777777\<rparr>"
  by (simp add: ex_defs eval_defs)

lemma blocks_ex_one_more:
  "blocks ex_one_more 0x1000 = \<lparr>size_m = 16, next_m = 0x1028, free_m = 0, magic_m = 0x12345678\<rparr>"
  "blocks ex_one_more 0x1028 = \<lparr>size_m = 32, next_m = 0, free_m = 0, magic_m = 0x12345678\<rparr>"
  by (simp_all add: ex_defs eval_defs)

lemma blocks_ex_grown:
  "blocks ex_grown 0x1000 = \<lparr>size_m = 16, next_m = 0x1028, free_m = 1, magic_m = 0x55555555\<rparr>"
  "blocks ex_grown 0x1028 = \<lparr>size_m = 32, next_m = 0, free_m = 0, magic_m = 0x12345678\<rparr>"
  by (simp_all add: ex_defs eval_defs)

lemma blocks_ex_minus_one:
  "blocks ex_minus_one 0x1000 =
     \<lparr>size_m = 0xFFFFFFFFFFFFFFFF, next_m = 0, free_m = 0, magic_m = 0x12345678\<rparr>"
  by (simp add: ex_defs eval_defs)

lemma blocks_ex_clobbered:
  "blocks ex_clobbered 0x1000 =
     \<lparr>size_m = 0xFFFFFFFFFFFFFFFF, next_m = 0x1017, free_m = 0, magic_m = 0x10345678\<rparr>"
  "blocks ex_clobbered 0x1017 = \<lparr>size_m = 16, next_m = 0, free_m = 0, magic_m = 0x12345678\<rparr>"
  by (simp_all add: ex_defs eval_defs)

lemma blocks_ex_short:
  "blocks ex_short 0x1000 =
     \<lparr>size_m = 0xFFFFFFFFFFFFFFF0, next_m = 0, free_m = 0, magic_m = 0x12345678\<rparr>"
  by (simp add: ex_defs eval_defs)

lemma blocks_ex_short_two:
  "blocks ex_short_two 0x1000 =
     \<lparr>size_m = 0xFFFFFFFFFFFFFFF0, next_m = 0x10, free_m = 0, magic_m = 0\<rparr>"
  "blocks ex_short_two 0x1008 = \<lparr>size_m = 16, next_m = 0, free_m = 0, magic_m = 0x12345678\<rparr>"
  by (simp_all add: ex_defs eval_defs)

lemma blocks_ex_short_freed:
  "blocks ex_short_freed 0x1000 =
     \<lparr>size_m = 0xFFFFFFFFFFFFFFF0, next_m = 0x10, free_m = 0, magic_m = 0\<rparr>"
  "blocks ex_short_freed 0x1008 = \<lparr>size_m = 16, next_m = 0, free_m = 1, magic_m = 0x55555555\<rparr>"
  "blocks ex_short_freed 0x10 = \<lparr>size_m = 0xAAAAAAAAAAAAAAAA, next_m = 0xAAAAAAAAAAAAAAAA,
     free_m = 0xAAAAAAAA, magic_m = 0xAAAAAAAA\<rparr>"
  by (simp_all add: ex_defs eval_defs)

lemma find_loop_0: "find_free_block_loop s sz l 0 = Some (l, 0)"
  using find_loop_NULL [of s sz l] by (simp add: NULL_def)

lemma find_loop_step_0:
  "c \<noteq> 0 \<Longrightarrow> \<not> fits s sz c \<Longrightarrow>
   find_free_block_loop s sz l c = find_free_block_loop s sz c (next_m (blocks s c))"
  using find_loop_step [of c s sz l] by (simp add: NULL_def)

text \<open>\<^verbatim>\<open>malloc\<close> on a heap that is not empty, by the result of the scan.\<close>

lemma malloc_scan_none:
  assumes "sz \<noteq> 0" and "global_base s \<noteq> 0"
    and "find_free_block_loop (s\<lparr>malloc_calls := malloc_calls s + 1\<rparr>) sz
           (global_base s) (global_base s) = Some (l, 0)"
  shows "malloc sz s =
     (case request_space l sz (s\<lparr>malloc_calls := malloc_calls s + 1\<rparr>) of
        Inl f \<Rightarrow> Some (Inl f)
      | Inr (block, s1) \<Rightarrow>
          if block = 0 then Some (Inr (0, s1)) else Some (Inr (block + 24, s1)))"
  using assms
  by (simp add: malloc_def find_free_block_def Let_def NULL_def META_SIZE_def word_le_0_iff
      split: sum.splits prod.splits)

lemma malloc_scan_found:
  assumes "sz \<noteq> 0" and "global_base s \<noteq> 0"
    and "find_free_block_loop (s\<lparr>malloc_calls := malloc_calls s + 1\<rparr>) sz
           (global_base s) (global_base s) = Some (l, b)"
    and "b \<noteq> 0"
  shows "malloc sz s = Some (Inr (b + 24,
           set_free_magic b 0 0x77777777 (s\<lparr>malloc_calls := malloc_calls s + 1\<rparr>)))"
  using assms
  by (simp add: malloc_def find_free_block_def Let_def NULL_def META_SIZE_def word_le_0_iff)

text \<open>The calls on the concrete states.\<close>

lemma malloc_ex_empty_16: "malloc 16 ex_empty = Some (Inr (0x1018, ex_one))"
  by (simp add: op_defs ex_defs)

lemma malloc_ex_empty_32: "malloc 32 ex_empty = Some (Inr (0x1018, ex_big))"
  by (simp add: op_defs ex_defs)

lemma malloc_ex_empty_max: "malloc 0xFFFFFFFFFFFFFFFF ex_empty = Some (Inr (0x1018, ex_minus_one))"
  by (simp add: op_defs ex_defs)

lemma malloc_ex_empty_short: "malloc 0xFFFFFFFFFFFFFFF0 ex_empty = Some (Inr (0x1018, ex_short))"
  by (simp add: op_defs ex_defs)

lemma malloc_ex_full_16: "malloc 16 ex_full = Some (Inl AssertionFailed)"
  by (simp add: op_defs ex_defs)

lemma global_base_ex:
  "global_base ex_one = 0x1000" "global_base ex_one_full = 0x1000" "global_base ex_two = 0x1000"
  "global_base ex_big_freed = 0x1000" "global_base ex_minus_one = 0x1000"
  "global_base ex_clobbered = 0x1000"
  "global_base ex_short = 0x1000" "global_base ex_short_freed = 0x1000"
  "global_base ex_grown = 0x1000" "global_base ex_one_more = 0x1000"
  by (simp_all add: ex_defs)

lemma brk_ex:
  "brk ex_empty = 0x1000" "brk ex_one = 0x1028" "brk ex_two = 0x1050"
  "brk ex_minus_one = 0x1017" "brk ex_clobbered = 0x103F" "brk ex_short = 0x1008"
  "brk ex_short_two = 0x1030"
  by (simp_all add: ex_defs)


lemma malloc_ex_one_32: "malloc 32 ex_one = Some (Inr (0x1040, ex_one_more))"
proof -
  have "find_free_block_loop (ex_one\<lparr>malloc_calls := malloc_calls ex_one + 1\<rparr>) 32
          0x1000 0x1000 = Some (0x1000, 0)"
    by (simp add: find_loop_step_0 find_loop_0 fits_def blocks_ex_one)
  then have "malloc 32 ex_one =
     (case request_space 0x1000 32 (ex_one\<lparr>malloc_calls := malloc_calls ex_one + 1\<rparr>) of
        Inl f \<Rightarrow> Some (Inl f)
      | Inr (block, s1) \<Rightarrow>
          if block = 0 then Some (Inr (0, s1)) else Some (Inr (block + 24, s1)))"
    by (intro malloc_scan_none) (simp_all add: global_base_ex)
  also have "\<dots> = Some (Inr (0x1040, ex_one_more))" by (simp add: op_defs ex_defs)
  finally show ?thesis .
qed

lemma blocks_ex_one_full: "blocks ex_one_full = blocks ex_one"
  by (rule blocks_mem_eq) (simp add: ex_one_full_def)

lemma malloc_ex_one_full_64: "malloc 64 ex_one_full = Some (Inl AssertionFailed)"
proof -
  have "find_free_block_loop (ex_one_full\<lparr>malloc_calls := malloc_calls ex_one_full + 1\<rparr>) 64
          0x1000 0x1000 = Some (0x1000, 0)"
    by (simp add: find_loop_step_0 find_loop_0 fits_def blocks_ex_one_full blocks_ex_one)
  then have "malloc 64 ex_one_full =
     (case request_space 0x1000 64 (ex_one_full\<lparr>malloc_calls := malloc_calls ex_one_full + 1\<rparr>) of
        Inl f \<Rightarrow> Some (Inl f)
      | Inr (block, s1) \<Rightarrow>
          if block = 0 then Some (Inr (0, s1)) else Some (Inr (block + 24, s1)))"
    by (intro malloc_scan_none) (simp_all add: global_base_ex)
  also have "\<dots> = Some (Inl AssertionFailed)" by (simp add: op_defs ex_defs)
  finally show ?thesis .
qed

lemma malloc_ex_big_freed_16: "malloc 16 ex_big_freed = Some (Inr (0x1018, ex_big_reused))"
proof -
  have "find_free_block_loop (ex_big_freed\<lparr>malloc_calls := malloc_calls ex_big_freed + 1\<rparr>) 16
          0x1000 0x1000 = Some (0x1000, 0x1000)"
    by (simp add: find_loop_fit fits_def blocks_ex_big_freed)
  then have "malloc 16 ex_big_freed = Some (Inr (0x1000 + 24,
      set_free_magic 0x1000 0 0x77777777
        (ex_big_freed\<lparr>malloc_calls := malloc_calls ex_big_freed + 1\<rparr>)))"
    by (intro malloc_scan_found) (simp_all add: global_base_ex)
  also have "\<dots> = Some (Inr (0x1018, ex_big_reused))" by (simp add: op_defs ex_defs)
  finally show ?thesis .
qed

lemma malloc_ex_minus_one_16: "malloc 16 ex_minus_one = Some (Inr (0x102F, ex_clobbered))"
proof -
  have "find_free_block_loop (ex_minus_one\<lparr>malloc_calls := malloc_calls ex_minus_one + 1\<rparr>) 16
          0x1000 0x1000 = Some (0x1000, 0)"
    by (simp add: find_loop_step_0 find_loop_0 fits_def blocks_ex_minus_one)
  then have "malloc 16 ex_minus_one =
     (case request_space 0x1000 16 (ex_minus_one\<lparr>malloc_calls := malloc_calls ex_minus_one + 1\<rparr>) of
        Inl f \<Rightarrow> Some (Inl f)
      | Inr (block, s1) \<Rightarrow>
          if block = 0 then Some (Inr (0, s1)) else Some (Inr (block + 24, s1)))"
    by (intro malloc_scan_none) (simp_all add: global_base_ex)
  also have "\<dots> = Some (Inr (0x102F, ex_clobbered))" by (simp add: op_defs ex_defs)
  finally show ?thesis .
qed

lemma malloc_ex_short_16: "malloc 16 ex_short = Some (Inr (0x1020, ex_short_two))"
proof -
  have "find_free_block_loop (ex_short\<lparr>malloc_calls := malloc_calls ex_short + 1\<rparr>) 16
          0x1000 0x1000 = Some (0x1000, 0)"
    by (simp add: find_loop_step_0 find_loop_0 fits_def blocks_ex_short)
  then have "malloc 16 ex_short =
     (case request_space 0x1000 16 (ex_short\<lparr>malloc_calls := malloc_calls ex_short + 1\<rparr>) of
        Inl f \<Rightarrow> Some (Inl f)
      | Inr (block, s1) \<Rightarrow>
          if block = 0 then Some (Inr (0, s1)) else Some (Inr (block + 24, s1)))"
    by (intro malloc_scan_none) (simp_all add: global_base_ex)
  also have "\<dots> = Some (Inr (0x1020, ex_short_two))" by (simp add: op_defs ex_defs)
  finally show ?thesis .
qed

lemma malloc_ex_short_freed_8: "malloc 8 ex_short_freed = Some (Inr (0x28, ex_short_scan))"
proof -
  have "find_free_block_loop (ex_short_freed\<lparr>malloc_calls := malloc_calls ex_short_freed + 1\<rparr>) 8
          0x1000 0x1000 = Some (0x1000, 0x10)"
    by (simp add: find_loop_step_0 find_loop_fit fits_def blocks_ex_short_freed)
  then have "malloc 8 ex_short_freed = Some (Inr (0x10 + 24,
      set_free_magic 0x10 0 0x77777777
        (ex_short_freed\<lparr>malloc_calls := malloc_calls ex_short_freed + 1\<rparr>)))"
    by (intro malloc_scan_found) (simp_all add: global_base_ex)
  also have "\<dots> = Some (Inr (0x28, ex_short_scan))" by (simp add: op_defs ex_defs)
  finally show ?thesis .
qed

lemma free_ex_one: "free 0x1018 ex_one = Inr ex_one_freed"
  by (simp add: free_def Let_def get_block_ptr_def META_SIZE_def NULL_def blocks_ex_one
      ex_one_freed_def)

lemma free_ex_one_freed: "free 0x1018 ex_one_freed = Inl AssertionFailed"
  by (simp add: free_def Let_def get_block_ptr_def META_SIZE_def NULL_def blocks_ex_one_freed)

lemma free_ex_big: "free 0x1018 ex_big = Inr ex_big_freed"
  by (simp add: free_def Let_def get_block_ptr_def META_SIZE_def NULL_def blocks_ex_big
      ex_big_freed_def)

lemma free_ex_short_two: "free 0x1020 ex_short_two = Inr ex_short_freed"
  by (simp add: free_def Let_def get_block_ptr_def META_SIZE_def NULL_def blocks_ex_short_two
      ex_short_freed_def)

lemma realloc_ex_big_reused: "realloc 0x1018 24 ex_big_reused = Some (Inr (0x1018, ex_big_reused))"
  by (simp add: realloc_def Let_def get_block_ptr_def META_SIZE_def NULL_def blocks_ex_big_reused)

lemma realloc_ex_one_32: "realloc 0x1018 32 ex_one = Some (Inr (0x1040, ex_grown))"
proof -
  have "free 0x1018 (ex_one_more\<lparr>mem := memcpy_bytes 0x1040 0x1018 16 (mem ex_one_more)\<rparr>)
        = Inr ex_grown"
  proof -
    have "blocks (ex_one_more\<lparr>mem := memcpy_bytes 0x1040 0x1018 16 (mem ex_one_more)\<rparr>) 0x1000
          = \<lparr>size_m = 16, next_m = 0x1028, free_m = 0, magic_m = 0x12345678\<rparr>"
      by (simp add: ex_defs eval_defs)
    then show ?thesis
      by (simp add: free_def Let_def get_block_ptr_def META_SIZE_def NULL_def ex_grown_def)
  qed
  then show ?thesis
    by (simp add: realloc_def Let_def get_block_ptr_def META_SIZE_def NULL_def blocks_ex_one
        malloc_ex_one_32 blocks_ex_one_more memcpy_def)
qed

lemma realloc_ex_one_full_64: "realloc 0x1018 64 ex_one_full = Some (Inl AssertionFailed)"
  by (simp add: realloc_def Let_def get_block_ptr_def META_SIZE_def NULL_def
      blocks_ex_one_full blocks_ex_one malloc_ex_one_full_64)

text \<open>
  The same for \<^verbatim>\<open>realloc\<close> after a request that has moved the break backwards: the new
  record is written over the bytes of the region before \<^verbatim>\<open>memcpy\<close> reads them.
\<close>

lemma blocks_ex_back:
  "blocks ex_back 0x1000 = \<lparr>size_m = 16, next_m = 0x1028, free_m = 0, magic_m = 0x12345678\<rparr>"
  "blocks ex_back 0x1028 =
     \<lparr>size_m = 0xFFFFFFFFFFFFFFD8, next_m = 0, free_m = 0, magic_m = 0x12345678\<rparr>"
  by (simp_all add: ex_defs eval_defs)

lemma blocks_ex_back_more:
  "blocks ex_back_more 0x1000 =
     \<lparr>size_m = 16, next_m = 0x1028, free_m = 0, magic_m = 0x12345678\<rparr>"
  by (simp add: ex_defs eval_defs)

lemma malloc_ex_one_back: "malloc 0xFFFFFFFFFFFFFFD8 ex_one = Some (Inr (0x1040, ex_back))"
proof -
  have "find_free_block_loop (ex_one\<lparr>malloc_calls := malloc_calls ex_one + 1\<rparr>)
          0xFFFFFFFFFFFFFFD8 0x1000 0x1000 = Some (0x1000, 0)"
    by (simp add: find_loop_step_0 find_loop_0 fits_def blocks_ex_one)
  then have "malloc 0xFFFFFFFFFFFFFFD8 ex_one =
     (case request_space 0x1000 0xFFFFFFFFFFFFFFD8
             (ex_one\<lparr>malloc_calls := malloc_calls ex_one + 1\<rparr>) of
        Inl f \<Rightarrow> Some (Inl f)
      | Inr (block, s1) \<Rightarrow>
          if block = 0 then Some (Inr (0, s1)) else Some (Inr (block + 24, s1)))"
    by (intro malloc_scan_none) (simp_all add: global_base_ex)
  also have "\<dots> = Some (Inr (0x1040, ex_back))" by (simp add: op_defs ex_defs)
  finally show ?thesis .
qed

lemma malloc_ex_back_32: "malloc 32 ex_back = Some (Inr (0x1030, ex_back_more))"
proof -
  have g: "global_base ex_back = 0x1000" by (simp add: ex_defs)
  have "find_free_block_loop (ex_back\<lparr>malloc_calls := malloc_calls ex_back + 1\<rparr>) 32
          0x1000 0x1000 = Some (0x1028, 0)"
    by (simp add: find_loop_step_0 find_loop_0 fits_def blocks_ex_back)
  then have "malloc 32 ex_back =
     (case request_space 0x1028 32 (ex_back\<lparr>malloc_calls := malloc_calls ex_back + 1\<rparr>) of
        Inl f \<Rightarrow> Some (Inl f)
      | Inr (block, s1) \<Rightarrow>
          if block = 0 then Some (Inr (0, s1)) else Some (Inr (block + 24, s1)))"
    by (intro malloc_scan_none) (simp_all add: g)
  also have "\<dots> = Some (Inr (0x1030, ex_back_more))" by (simp add: op_defs ex_defs)
  finally show ?thesis .
qed

lemma realloc_ex_back_32: "realloc 0x1018 32 ex_back = Some (Inr (0x1030, ex_back_grown))"
proof -
  have "free 0x1018 (ex_back_more\<lparr>mem := memcpy_bytes 0x1030 0x1018 16 (mem ex_back_more)\<rparr>)
        = Inr ex_back_grown"
  proof -
    have "blocks (ex_back_more\<lparr>mem := memcpy_bytes 0x1030 0x1018 16 (mem ex_back_more)\<rparr>) 0x1000
          = \<lparr>size_m = 16, next_m = 0x1028, free_m = 0, magic_m = 0x12345678\<rparr>"
      by (simp add: ex_defs eval_defs)
    then show ?thesis
      by (simp add: free_def Let_def get_block_ptr_def META_SIZE_def NULL_def ex_back_grown_def)
  qed
  then show ?thesis
    by (simp add: realloc_def Let_def get_block_ptr_def META_SIZE_def NULL_def blocks_ex_back
        malloc_ex_back_32 blocks_ex_back_more memcpy_def)
qed

lemma realloc_after_backwards_break:
  "malloc 16 ex_empty = Some (Inr (0x1018, ex_one)) \<and>
   malloc 0xFFFFFFFFFFFFFFD8 ex_one = Some (Inr (0x1040, ex_back)) \<and>
   brk ex_back = 0x1018 \<and>
   blocks ex_back (get_block_ptr 0x1018) =
     \<lparr>size_m = 16, next_m = 0x1028, free_m = 0, magic_m = 0x12345678\<rparr> \<and>
   realloc 0x1018 32 ex_back = Some (Inr (0x1030, ex_back_grown)) \<and>
   mem ex_back 0x1018 = 0xAA \<and> mem ex_back_grown 0x1030 = 0x20"
proof -
  have "brk ex_back = 0x1018" by (simp add: ex_defs)
  moreover have "mem ex_back 0x1018 = 0xAA" "mem ex_back_grown 0x1030 = 0x20"
    by (simp_all add: ex_defs eval_defs)
  ultimately show ?thesis
    by (simp add: malloc_ex_empty_16 malloc_ex_one_back realloc_ex_back_32 blocks_ex_back
        get_block_ptr_def META_SIZE_def)
qed

lemma heap_ok_ex_one: "heap_ok ex_one [0x1000]"
  by (simp add: heap_ok_def global_base_ex brk_ex blocks_ex_one NULL_def)


lemma minus_one_numeral: "(- 1 :: 64 word) = 0xFFFFFFFFFFFFFFFF"
  by simp

section \<open>The claims\<close>

subsection \<open>C1: first-fit reuse\<close>

text \<open>
  C1 says that after \<^verbatim>\<open>free(p)\<close> for a region from \<^verbatim>\<open>malloc(n)\<close>, a \<^verbatim>\<open>malloc(m)\<close> with
  \<open>m \<le> n\<close> returns \<open>p\<close> when no earlier record is free and large enough. It fails after a
  request whose \<^verbatim>\<open>size + META_SIZE\<close> wraps around. On the empty heap,
  \<^verbatim>\<open>malloc(SIZE_MAX - 15)\<close> moves the break by 8 only and returns \<open>0x1018\<close>; the record of
  the following \<^verbatim>\<open>malloc(16)\<close> is put at the break \<open>0x1008\<close>, inside the first record, and
  its \<^verbatim>\<open>size\<close> and \<^verbatim>\<open>next\<close> overwrite the \<^verbatim>\<open>next\<close>, \<^verbatim>\<open>free\<close> and \<^verbatim>\<open>magic\<close> of the first
  record. The region \<open>p = 0x1020\<close> is returned and released: its record is free, of size
  16, and the first record is not free. But the \<^verbatim>\<open>next\<close> of the first record is now
  \<open>0x10\<close>, the record of \<open>p\<close> is not in the chain, and \<^verbatim>\<open>malloc(8)\<close> does not return \<open>p\<close>:
  the scan goes on at address \<open>0x10\<close>, outside the heap (where it finds the bytes
  \<open>0xAA\<close> of this memory and takes them for a free record).
\<close>

theorem first_fit_reuse_fails:
  "SIZE_MAX - 15 = 0xFFFFFFFFFFFFFFF0 \<and>
   malloc 0xFFFFFFFFFFFFFFF0 ex_empty = Some (Inr (0x1018, ex_short)) \<and>
   brk ex_short = 0x1008 \<and>
   malloc 16 ex_short = Some (Inr (0x1020, ex_short_two)) \<and>
   free 0x1020 ex_short_two = Inr ex_short_freed \<and>
   get_block_ptr 0x1020 = 0x1008 \<and>
   blocks ex_short_freed 0x1008 =
     \<lparr>size_m = 16, next_m = 0, free_m = 1, magic_m = 0x55555555\<rparr> \<and>
   (8 :: size_t) \<le> 16 \<and>
   global_base ex_short_freed = 0x1000 \<and>
   blocks ex_short_freed 0x1000 =
     \<lparr>size_m = 0xFFFFFFFFFFFFFFF0, next_m = 0x10, free_m = 0, magic_m = 0\<rparr> \<and>
   malloc 8 ex_short_freed = Some (Inr (0x28, ex_short_scan)) \<and>
   (0x28 :: addr) \<noteq> 0x1020"
  by (simp add: malloc_ex_empty_short malloc_ex_short_16 free_ex_short_two
      blocks_ex_short_freed malloc_ex_short_freed_8 global_base_ex brk_ex
      get_block_ptr_def META_SIZE_def SIZE_MAX_def)

subsection \<open>C2: failure of the heap growth in \<^verbatim>\<open>malloc\<close>\<close>

text \<open>
  C2 says that \<^verbatim>\<open>malloc\<close> returns \<^verbatim>\<open>NULL\<close> when \<^verbatim>\<open>sbrk\<close> fails. On the empty heap
  \<open>ex_full\<close>, where \<^verbatim>\<open>sbrk\<close> refuses to grow, \<^verbatim>\<open>malloc(16)\<close> does not return: the assertion
  of \<^verbatim>\<open>request_space\<close> fails.
\<close>

theorem malloc_sbrk_failure_aborts: "malloc 16 ex_full = Some (Inl AssertionFailed)"
  by (simp add: op_defs ex_defs)

subsection \<open>C3: \<^verbatim>\<open>realloc\<close> within the recorded size\<close>

text \<open>
  C3. For a pointer \<open>ptr\<close> that is not \<^verbatim>\<open>NULL\<close> and a size that is at most the recorded size
  of its record, \<^verbatim>\<open>realloc\<close> returns \<open>ptr\<close> and the state is the one before the call: no
  call of \<^verbatim>\<open>sbrk\<close> or \<^verbatim>\<open>malloc\<close>, the break, every record and every byte unchanged.
\<close>

theorem realloc_no_grow:
  assumes "ptr \<noteq> NULL" and "sz \<le> size_m (blocks s (get_block_ptr ptr))"
  shows "realloc ptr sz s = Some (Inr (ptr, s))"
  using assms by (simp add: realloc_def Let_def)

theorem realloc_no_grow_witness:
  "(0x1018 :: addr) \<noteq> NULL \<and> (8 :: size_t) \<le> size_m (blocks ex_one (get_block_ptr 0x1018)) \<and>
   realloc 0x1018 8 ex_one = Some (Inr (0x1018, ex_one))"
proof -
  have h1: "(0x1018 :: addr) \<noteq> NULL" by (simp add: NULL_def)
  have h2: "(8 :: size_t) \<le> size_m (blocks ex_one (get_block_ptr 0x1018))"
    by (simp add: get_block_ptr_def META_SIZE_def blocks_ex_one)
  from realloc_no_grow [OF h1 h2] h1 h2 show ?thesis by simp
qed

subsection \<open>C4: growing \<^verbatim>\<open>realloc\<close>\<close>

text \<open>
  C4, on a heap that is laid out well (\<open>heap_ok\<close>). Let \<open>ptr\<close> be the region of a record
  of the chain that is in use, and \<open>sz\<close> larger than the recorded size of this record.
  If some record of the chain is free and large enough, or if \<^verbatim>\<open>sbrk\<close> grants
  \<open>sz + META_SIZE\<close> bytes and the new record with its region ends below the end of the
  address space, then \<^verbatim>\<open>realloc\<close> returns a pointer \<open>q\<close> that is neither \<^verbatim>\<open>NULL\<close> nor
  \<open>ptr\<close>; the first bytes of \<open>q\<close>, as many as the recorded size of \<open>ptr\<close>, are those of
  \<open>ptr\<close> before the call; and the record of \<open>ptr\<close> is still in the chain, free, with
  the released marker and its size unchanged, in a heap that is laid out well again.
\<close>

theorem realloc_grow:
  assumes ok: "heap_ok s as"
    and b: "get_block_ptr ptr \<in> set as"
    and live: "free_m (blocks s (get_block_ptr ptr)) = 0"
      "magic_m (blocks s (get_block_ptr ptr)) = MAGIC_CARVED \<or>
       magic_m (blocks s (get_block_ptr ptr)) = MAGIC_RECYCLED"
    and grow: "size_m (blocks s (get_block_ptr ptr)) < sz"
    and room: "(\<exists>a\<in>set as. fits s sz a) \<or>
       (sbrk_grants s (brk s) (sz + META_SIZE) \<and> unat (brk s) + 24 + unat sz < 2 ^ 64)"
  shows "\<exists>q s'. realloc ptr sz s = Some (Inr (q, s')) \<and> q \<noteq> NULL \<and> q \<noteq> ptr \<and>
       (\<forall>i. i < size_m (blocks s (get_block_ptr ptr)) \<longrightarrow> mem s' (q + i) = mem s (ptr + i)) \<and>
       free_m (blocks s' (get_block_ptr ptr)) = 1 \<and>
       magic_m (blocks s' (get_block_ptr ptr)) = MAGIC_RELEASED \<and>
       size_m (blocks s' (get_block_ptr ptr)) = size_m (blocks s (get_block_ptr ptr)) \<and>
       (\<exists>as'. heap_ok s' as' \<and> get_block_ptr ptr \<in> set as')"
proof -
  let ?b = "get_block_ptr ptr"
  let ?n = "size_m (blocks s ?b)"
  let ?s = "s\<lparr>malloc_calls := malloc_calls s + 1\<rparr>"
  note chain = heap_ok_chain [OF ok]
  have ptr: "ptr \<noteq> NULL" using heap_ok_not_NULL [OF ok b] by simp
  from grow have pos: "0 < sz" by (auto simp: word_gt_0)
  from grow have ngt: "\<not> sz \<le> ?n" by simp
  from grow have n_le: "unat ?n \<le> unat sz" by (simp add: word_less_nat_alt)
  have below: "unat ?b + 24 + unat ?n \<le> unat (brk s)" using ok b by (rule heap_ok_below)
  have lt: "unat (brk s) < 2 ^ 64" by (rule unat_lt_2p64)
  have src_sub: "span ptr (unat ?n) \<subseteq> span ?b (24 + unat ?n)"
    using payload_sub_region [of "unat ?n" "unat ?n" ?b] below lt by simp
  have live': "magic_m (blocks s ?b) = 0x77777777 \<or> magic_m (blocks s ?b) = 0x12345678"
    using live(2) by (auto simp: MAGIC_CARVED_def MAGIC_RECYCLED_def)
  have "\<exists>q s1 as1. malloc sz s = Some (Inr (q, s1)) \<and> q \<noteq> NULL \<and> q \<noteq> ptr \<and>
      chain_from s1 (global_base s1) as1 \<and> ?b \<in> set as1 \<and>
      size_m (blocks s1 ?b) = ?n \<and> free_m (blocks s1 ?b) = free_m (blocks s ?b) \<and>
      magic_m (blocks s1 ?b) = magic_m (blocks s ?b) \<and>
      (\<forall>a\<in>set as1. header a \<inter> span q (unat ?n) = {}) \<and>
      (\<forall>a\<in>set as1. a \<noteq> ?b \<longrightarrow> header a \<inter> header ?b = {}) \<and>
      (\<forall>x\<in>span ptr (unat ?n). mem s1 x = mem s x) \<and>
      unat q + unat ?n \<le> 2 ^ 64"
  proof (cases "\<exists>a\<in>set as. fits s sz a")
    case True
    then obtain pre bq post where
      as: "as = pre @ bq # post" and fit: "fits s sz bq" and pre: "\<forall>a\<in>set pre. \<not> fits s sz a"
      using split_list_first_prop [of as "fits s sz"] by blast
    let ?s1 = "set_free_magic bq 0 0x77777777 ?s"
    from chain as pre fit pos
    have m: "malloc sz s = Some (Inr (bq + META_SIZE, ?s1))"
      by (intro malloc_found [where post = post]) simp_all
    have bq: "bq \<in> set as" by (simp add: as)
    from fit ngt have ne: "bq \<noteq> ?b" by (auto simp: fits_def)
    have "mem ?s = mem s" "global_base ?s = global_base s" by simp_all
    note E = heap_ok_set_free_magic [OF ok bq this, where f = 0 and g = "0x77777777"]
    have reg: "span bq (24 + unat (size_m (blocks s bq))) \<inter> span ?b (24 + unat ?n) = {}"
      using ok bq b ne by (rule heap_ok_regions)
    have bq_below: "unat bq + 24 + unat (size_m (blocks s bq)) \<le> unat (brk s)"
      using ok bq by (rule heap_ok_below)
    from fit n_le have n_bq: "unat ?n \<le> unat (size_m (blocks s bq))"
      by (simp add: fits_def word_le_nat_alt)
    have dst_sub: "span (bq + META_SIZE) (unat ?n) \<subseteq> span bq (24 + unat (size_m (blocks s bq)))"
      using n_bq bq_below lt by (intro payload_sub_region) simp_all
    have hd: "header a \<inter> span (bq + META_SIZE) (unat ?n) = {}" if a: "a \<in> set as" for a
    proof (cases "a = bq")
      case True
      from n_bq bq_below lt have "24 + unat ?n \<le> 2 ^ 64" by simp
      then show ?thesis unfolding True by (rule header_payload_disjoint)
    next
      case False
      with ok a bq have "span a (24 + unat (size_m (blocks s a)))
          \<inter> span bq (24 + unat (size_m (blocks s bq))) = {}" by (intro heap_ok_regions)
      with dst_sub header_sub_region [of a] show ?thesis by blast
    qed
    have src: "mem ?s1 x = mem s x" if "x \<in> span ptr (unat ?n)" for x
    proof -
      from that src_sub reg header_sub_region [of bq] have "x \<notin> header bq" by blast
      then show ?thesis by (rule E(4))
    qed
    have "unat (bq + META_SIZE) = unat bq + 24"
      using bq_below lt by (intro unat_plus_META) simp
    with n_bq bq_below lt have "unat (bq + META_SIZE) + unat ?n \<le> 2 ^ 64" by simp
    moreover have "bq + META_SIZE \<noteq> NULL" using ok bq by (rule heap_ok_not_NULL)
    moreover have "bq + META_SIZE \<noteq> ptr" using ne by (auto simp: get_block_ptr_def)
    moreover have "blocks ?s1 ?b = blocks s ?b" using b ne by (intro E(2)) simp_all
    moreover have "\<forall>a\<in>set as. a \<noteq> ?b \<longrightarrow> header a \<inter> header ?b = {}"
    proof (intro ballI impI)
      fix a assume "a \<in> set as" "a \<noteq> ?b"
      with ok show "header a \<inter> header ?b = {}" using b by (intro heap_ok_headers)
    qed
    ultimately show ?thesis using m E(3) b hd src by (intro exI [of _ "bq + META_SIZE"] exI [of _ ?s1] exI [of _ as]) simp
  next
    case False
    with room have g: "sbrk_grants s (brk s) (sz + META_SIZE)"
      and nw: "unat (brk s) + 24 + unat sz < 2 ^ 64" by auto
    let ?blk = "brk s"
    from b have ne: "as \<noteq> []" by auto
    from below have bn: "brk s \<noteq> NULL" by (auto simp: NULL_def)
    from nw have "unat sz + 24 < 2 ^ 64" by simp
    then have "unat (sz + META_SIZE) = unat sz + 24" by (rule unat_plus_META)
    then have nz: "sz + META_SIZE \<noteq> 0" by auto
    from nw have "unat (brk s) \<noteq> 2 ^ 64 - 1" by simp
    then have nf: "brk s \<noteq> SBRK_FAILED"
      by (auto simp: SBRK_FAILED_def unsigned_minus_1_eq_mask mask_eq_exp_minus_1)
    from request_space_granted [of sz ?s "last (NULL # as)"] nz g nf
    obtain s1 where rs: "request_space (last (NULL # as)) sz ?s = Inr (?blk, s1)" by auto
    with False pos bn ne
    have m: "malloc sz s = Some (Inr (?blk + META_SIZE, s1))"
      using malloc_none_fits [OF chain, of sz] by simp
    from nw have nw24: "unat (brk s) + 24 \<le> 2 ^ 64" by simp
    have "mem ?s = mem s" "brk ?s = brk s" by simp_all
    note A = heap_ok_append [OF ok nw24 rs bn this]
    have gb: "global_base s1 = global_base s" using A(7) by simp
    have ch: "chain_from s1 (global_base s1) (as @ [?blk])" using A(5) ne by (simp add: gb)
    have hb: "header a \<inter> header ?blk = {}" if "a \<in> set as" for a
      using heap_ok_header_brk [OF ok that, of 24] nw24 by (simp add: header_def)
    have dst_sub: "span (?blk + META_SIZE) (unat ?n) \<subseteq> span ?blk (24 + unat sz)"
      using n_le nw by (intro payload_sub_region) simp_all
    have hd: "header a \<inter> span (?blk + META_SIZE) (unat ?n) = {}" if a: "a \<in> set (as @ [?blk])" for a
    proof (cases "a = ?blk")
      case True
      from n_le nw have "24 + unat ?n \<le> 2 ^ 64" by simp
      then show ?thesis unfolding True by (rule header_payload_disjoint)
    next
      case False
      with a have "a \<in> set as" by simp
      with ok have "header a \<inter> span ?blk (24 + unat sz) = {}"
        using nw by (intro heap_ok_header_brk) simp_all
      with dst_sub show ?thesis by blast
    qed
    have hh: "header a \<inter> header ?b = {}" if "a \<in> set (as @ [?blk])" "a \<noteq> ?b" for a
    proof (cases "a = ?blk")
      case True
      then show ?thesis using hb [OF b] by auto
    next
      case False
      with that ok b show ?thesis by (intro heap_ok_headers) simp_all
    qed
    have src: "mem s1 x = mem s x" if x: "x \<in> span ptr (unat ?n)" for x
    proof (rule A(6))
      have "span ?b (24 + unat ?n) \<inter> span ?blk 24 = {}"
        using ok b nw24 by (rule heap_ok_region_brk)
      with x src_sub show "x \<notin> header ?blk" by (auto simp: header_def)
      show "as = [] \<or> x \<notin> header (last as)"
      proof (cases "last as = ?b")
        case True
        from below lt have "24 + unat ?n \<le> 2 ^ 64" by simp
        then have "header ?b \<inter> span (?b + META_SIZE) (unat ?n) = {}"
          by (rule header_payload_disjoint)
        with x True show ?thesis by auto
      next
        case False
        from ne have "last as \<in> set as" by simp
        with ok False b have "span (last as) (24 + unat (size_m (blocks s (last as))))
          \<inter> span ?b (24 + unat ?n) = {}" by (intro heap_ok_regions)
        with x src_sub header_sub_region [of "last as"] show ?thesis by blast
      qed
    qed
    from nw have u: "unat (?blk + META_SIZE) = unat ?blk + 24" by (intro unat_plus_META) simp
    then have "?blk + META_SIZE \<noteq> NULL" by (auto simp: NULL_def)
    moreover from u n_le nw have "unat (?blk + META_SIZE) + unat ?n \<le> 2 ^ 64" by simp
    moreover have "?blk + META_SIZE \<noteq> ptr"
      using A(2) b by (auto simp: get_block_ptr_def)
    moreover have "size_m (blocks s1 ?b) = ?n" "free_m (blocks s1 ?b) = free_m (blocks s ?b)"
      "magic_m (blocks s1 ?b) = magic_m (blocks s ?b)"
      using A(4) [OF b] by simp_all
    ultimately show ?thesis using m ch b hd hh src
      by (intro exI [of _ "?blk + META_SIZE"] exI [of _ s1] exI [of _ "as @ [?blk]"]) simp
  qed
  then obtain q s1 as1 where m: "malloc sz s = Some (Inr (q, s1))" and q: "q \<noteq> NULL" "q \<noteq> ptr"
    and ch: "chain_from s1 (global_base s1) as1" and b1: "?b \<in> set as1"
    and keep: "size_m (blocks s1 ?b) = ?n" "free_m (blocks s1 ?b) = free_m (blocks s ?b)"
      "magic_m (blocks s1 ?b) = magic_m (blocks s ?b)"
    and hd: "\<forall>a\<in>set as1. header a \<inter> span q (unat ?n) = {}"
    and hh: "\<forall>a\<in>set as1. a \<noteq> ?b \<longrightarrow> header a \<inter> header ?b = {}"
    and src: "\<forall>x\<in>span ptr (unat ?n). mem s1 x = mem s x"
    and qr: "unat q + unat ?n \<le> 2 ^ 64"
    by blast
  have "unat (?b + META_SIZE) = unat ?b + 24"
    using below lt by (intro unat_plus_META) simp
  with below lt have pr: "unat ptr + unat ?n \<le> 2 ^ 64" by simp
  from realloc_finish [OF ch ptr b1, of q] keep live(1) live' hd hh
  obtain s' where f: "free ptr (s1\<lparr>mem := memcpy_bytes q ptr ?n (mem s1)\<rparr>) = Inr s'"
    and bytes: "\<forall>i. i < ?n \<longrightarrow> mem s' (q + i) = mem s1 (ptr + i)"
    and rec: "free_m (blocks s' ?b) = 1" "magic_m (blocks s' ?b) = 0x55555555"
      "size_m (blocks s' ?b) = ?n"
    and ch': "chain_from s' (global_base s') as1"
    by auto
  have r: "realloc ptr sz s = Some (Inr (q, s'))"
    using ptr ngt m q(1) f keep(1) qr pr by (simp add: realloc_def Let_def memcpy_Inr)
  from room have "(\<exists>a\<in>set as. fits s sz a) \<or> unat (brk s) + 24 + unat sz < 2 ^ 64"
    by blast
  with ok b r q(1) obtain as' where "heap_ok s' as'" "set as \<subseteq> set as'"
    using heap_ok_realloc by blast
  with b have laid: "\<exists>as'. heap_ok s' as' \<and> ?b \<in> set as'" by blast
  note r
  moreover have "\<forall>i. i < ?n \<longrightarrow> mem s' (q + i) = mem s (ptr + i)"
    using bytes src in_span_word by auto
  moreover have "magic_m (blocks s' ?b) = MAGIC_RELEASED" using rec(2) by (simp add: MAGIC_RELEASED_def)
  ultimately show ?thesis using q rec(1,3) laid by blast
qed


theorem realloc_grow_witness:
  "heap_ok ex_one [0x1000] \<and> get_block_ptr 0x1018 \<in> set [0x1000] \<and>
   free_m (blocks ex_one (get_block_ptr 0x1018)) = 0 \<and>
   magic_m (blocks ex_one (get_block_ptr 0x1018)) = MAGIC_CARVED \<and>
   size_m (blocks ex_one (get_block_ptr 0x1018)) < 32 \<and>
   sbrk_grants ex_one (brk ex_one) (32 + META_SIZE) \<and>
   unat (brk ex_one) + 24 + unat (32 :: size_t) < 2 ^ 64 \<and>
   realloc 0x1018 32 ex_one = Some (Inr (0x1040, ex_grown)) \<and> (0x1040 :: addr) \<noteq> NULL \<and>
   (0x1040 :: addr) \<noteq> 0x1018 \<and>
   mem ex_grown (0x1040 + 15) = mem ex_one (0x1018 + 15) \<and>
   free_m (blocks ex_grown (get_block_ptr 0x1018)) = 1 \<and>
   magic_m (blocks ex_grown (get_block_ptr 0x1018)) = MAGIC_RELEASED \<and>
   size_m (blocks ex_grown (get_block_ptr 0x1018)) =
     size_m (blocks ex_one (get_block_ptr 0x1018)) \<and>
   (\<exists>as'. heap_ok ex_grown as' \<and> get_block_ptr 0x1018 \<in> set as')"
proof -
  have g: "get_block_ptr 0x1018 = 0x1000" by (simp add: get_block_ptr_def META_SIZE_def)
  have h1: "heap_ok ex_one [0x1000]" by (rule heap_ok_ex_one)
  have h2: "get_block_ptr 0x1018 \<in> set [0x1000]" by (simp add: g)
  have h3: "free_m (blocks ex_one (get_block_ptr 0x1018)) = 0" by (simp add: g blocks_ex_one)
  have h4: "magic_m (blocks ex_one (get_block_ptr 0x1018)) = MAGIC_CARVED"
    by (simp add: g blocks_ex_one MAGIC_CARVED_def)
  have h5: "size_m (blocks ex_one (get_block_ptr 0x1018)) < 32" by (simp add: g blocks_ex_one)
  have h6: "sbrk_grants ex_one (brk ex_one) (32 + META_SIZE)" by (simp add: ex_defs)
  have h7: "unat (brk ex_one) + 24 + unat (32 :: size_t) < 2 ^ 64" by (simp add: brk_ex)
  have r: "realloc 0x1018 32 ex_one = Some (Inr (0x1040, ex_grown))" by (rule realloc_ex_one_32)
  have n: "(0x1040 :: addr) \<noteq> NULL" by (simp add: NULL_def)
  have i: "(15 :: size_t) < size_m (blocks ex_one (get_block_ptr 0x1018))"
    by (simp add: g blocks_ex_one)
  from realloc_grow [OF h1 h2 h3 disjI1 [OF h4] h5 disjI2 [OF conjI [OF h6 h7]]] r i
  have "(0x1040 :: addr) \<noteq> 0x1018 \<and>
   mem ex_grown (0x1040 + 15) = mem ex_one (0x1018 + 15) \<and>
   free_m (blocks ex_grown (get_block_ptr 0x1018)) = 1 \<and>
   magic_m (blocks ex_grown (get_block_ptr 0x1018)) = MAGIC_RELEASED \<and>
   size_m (blocks ex_grown (get_block_ptr 0x1018)) =
     size_m (blocks ex_one (get_block_ptr 0x1018)) \<and>
   (\<exists>as'. heap_ok ex_grown as' \<and> get_block_ptr 0x1018 \<in> set as')"
    by auto
  with h1 h2 h3 h4 h5 h6 h7 r n show ?thesis by blast
qed

text \<open>
  The claim as it is written compares with the size requested for \<open>ptr\<close>. A region of a
  reused record can be larger than requested: \<open>0x1018\<close> was requested with 16 bytes and has a
  record of 32, and \<^verbatim>\<open>realloc(0x1018, 24)\<close> returns \<open>0x1018\<close> itself.
\<close>

theorem realloc_grow_requested_counterexample:
  "malloc 32 ex_empty = Some (Inr (0x1018, ex_big)) \<and>
   free 0x1018 ex_big = Inr ex_big_freed \<and>
   malloc 16 ex_big_freed = Some (Inr (0x1018, ex_big_reused)) \<and>
   (16 :: size_t) < 24 \<and>
   realloc 0x1018 24 ex_big_reused = Some (Inr (0x1018, ex_big_reused))"
  by (simp add: malloc_ex_empty_32 free_ex_big malloc_ex_big_freed_16 realloc_ex_big_reused)

subsection \<open>C5: failure of the heap growth in \<^verbatim>\<open>realloc\<close>\<close>

text \<open>
  C5 says that a growing \<^verbatim>\<open>realloc\<close> returns \<^verbatim>\<open>NULL\<close> when its \<^verbatim>\<open>malloc\<close> fails. In
  \<open>ex_one_full\<close> no record is free and \<^verbatim>\<open>sbrk\<close> refuses to grow: \<^verbatim>\<open>realloc(0x1018, 64)\<close>
  does not return, by the assertion of \<^verbatim>\<open>request_space\<close>.
\<close>

theorem realloc_sbrk_failure_aborts:
  "realloc 0x1018 64 ex_one_full = Some (Inl AssertionFailed)"
  by (rule realloc_ex_one_full_64)

subsection \<open>C6: the checks of \<^verbatim>\<open>free\<close>\<close>

text \<open>
  C6. For a pointer that is not \<^verbatim>\<open>NULL\<close> the record is the one \<open>META_SIZE\<close> bytes before
  it. \<^verbatim>\<open>free\<close> aborts exactly when the flag of the record is not 0 or its marker is neither
  of the two that \<^verbatim>\<open>malloc\<close> writes; otherwise it returns, and the only change is that the
  flag of the record is 1 and its marker the released one: the state returned is the
  state before with these two members stored, the record reads accordingly, and a record
  that shares no byte with it reads as before.
\<close>

theorem free_consistency_check:
  assumes "ptr \<noteq> NULL"
  shows "get_block_ptr ptr = ptr - META_SIZE \<and>
    ((free ptr s = Inl AssertionFailed) =
       (free_m (blocks s (get_block_ptr ptr)) \<noteq> 0 \<or>
        \<not> (magic_m (blocks s (get_block_ptr ptr)) = MAGIC_CARVED \<or>
           magic_m (blocks s (get_block_ptr ptr)) = MAGIC_RECYCLED))) \<and>
    (free_m (blocks s (get_block_ptr ptr)) = 0 \<and>
     (magic_m (blocks s (get_block_ptr ptr)) = MAGIC_CARVED \<or>
      magic_m (blocks s (get_block_ptr ptr)) = MAGIC_RECYCLED) \<longrightarrow>
     (\<exists>s'. free ptr s = Inr s' \<and>
        s' = s\<lparr>mem := store32 (get_block_ptr ptr + OFF_magic) MAGIC_RELEASED
                        (store32 (get_block_ptr ptr + OFF_free) 1 (mem s))\<rparr> \<and>
        blocks s' (get_block_ptr ptr) =
          (blocks s (get_block_ptr ptr))\<lparr>free_m := 1, magic_m := MAGIC_RELEASED\<rparr> \<and>
        (\<forall>a. header a \<inter> header (get_block_ptr ptr) = {} \<longrightarrow> blocks s' a = blocks s a)))"
proof (intro conjI impI)
  show "get_block_ptr ptr = ptr - META_SIZE" by (simp add: get_block_ptr_def)
  show "(free ptr s = Inl AssertionFailed) =
       (free_m (blocks s (get_block_ptr ptr)) \<noteq> 0 \<or>
        \<not> (magic_m (blocks s (get_block_ptr ptr)) = MAGIC_CARVED \<or>
           magic_m (blocks s (get_block_ptr ptr)) = MAGIC_RECYCLED))"
    using assms by (auto simp: free_def Let_def magic_defs)
next
  let ?b = "get_block_ptr ptr"
  let ?s' = "set_free_magic ?b 1 MAGIC_RELEASED s"
  assume "free_m (blocks s ?b) = 0 \<and>
     (magic_m (blocks s ?b) = MAGIC_CARVED \<or> magic_m (blocks s ?b) = MAGIC_RECYCLED)"
  with assms have "free ptr s = Inr ?s'"
    by (auto simp: free_def Let_def magic_defs)
  moreover have "?s' = s\<lparr>mem := store32 (?b + OFF_magic) MAGIC_RELEASED
                        (store32 (?b + OFF_free) 1 (mem s))\<rparr>"
    by (simp add: set_free_magic_def set_magic_def set_free_def)
  moreover have "blocks ?s' ?b = (blocks s ?b)\<lparr>free_m := 1, magic_m := MAGIC_RELEASED\<rparr>"
    by simp
  moreover have "\<forall>a. header a \<inter> header ?b = {} \<longrightarrow> blocks ?s' a = blocks s a"
    by (simp add: blocks_set_free_magic_other)
  ultimately show "\<exists>s'. free ptr s = Inr s' \<and>
        s' = s\<lparr>mem := store32 (?b + OFF_magic) MAGIC_RELEASED
                        (store32 (?b + OFF_free) 1 (mem s))\<rparr> \<and>
        blocks s' ?b = (blocks s ?b)\<lparr>free_m := 1, magic_m := MAGIC_RELEASED\<rparr> \<and>
        (\<forall>a. header a \<inter> header ?b = {} \<longrightarrow> blocks s' a = blocks s a)"
    by (intro exI [of _ ?s']) simp
qed

theorem free_consistency_check_witness:
  "(0x1018 :: addr) \<noteq> NULL \<and>
   free_m (blocks ex_one (get_block_ptr 0x1018)) = 0 \<and>
   magic_m (blocks ex_one (get_block_ptr 0x1018)) = MAGIC_CARVED \<and>
   free 0x1018 ex_one = Inr ex_one_freed \<and>
   blocks ex_one_freed (get_block_ptr 0x1018) =
     (blocks ex_one (get_block_ptr 0x1018))\<lparr>free_m := 1, magic_m := MAGIC_RELEASED\<rparr> \<and>
   free_m (blocks ex_one_freed (get_block_ptr 0x1018)) = 1 \<and>
   free 0x1018 ex_one_freed = Inl AssertionFailed"
proof -
  have h: "(0x1018 :: addr) \<noteq> NULL" by (simp add: NULL_def)
  have g: "get_block_ptr 0x1018 = 0x1000" by (simp add: get_block_ptr_def META_SIZE_def)
  from free_consistency_check [OF h, of ex_one] free_consistency_check [OF h, of ex_one_freed]
  show ?thesis
    by (simp add: g blocks_ex_one blocks_ex_one_freed free_ex_one magic_defs NULL_def)
qed

subsection \<open>C7: \<^verbatim>\<open>malloc(0)\<close>\<close>

text \<open>
  C7, for the request 0. \<^verbatim>\<open>malloc(0)\<close> returns \<^verbatim>\<open>NULL\<close>; \<^verbatim>\<open>sbrk\<close> is not called, and the
  break, \<^verbatim>\<open>global_base\<close>, every record and every byte are unchanged.
\<close>

theorem malloc_zero_no_growth:
  "\<exists>s'. malloc 0 s = Some (Inr (NULL, s')) \<and> sbrk_calls s' = sbrk_calls s \<and> brk s' = brk s \<and>
     global_base s' = global_base s \<and> blocks s' = blocks s \<and> mem s' = mem s"
  by (simp add: malloc_def Let_def)

text \<open>
  The parameter is a \<^verbatim>\<open>size_t\<close>: \<^verbatim>\<open>size <= 0\<close> holds for 0 only. A negative argument
  arrives as a large size; \<^verbatim>\<open>malloc((size_t)-1)\<close> on the empty heap calls \<^verbatim>\<open>sbrk\<close> twice,
  moves the break and returns \<open>0x1018\<close>.
\<close>

theorem malloc_negative_counterexample:
  "sint (- 1 :: size_t) < 0 \<and>
   malloc (- 1) ex_empty = Some (Inr (0x1018, ex_minus_one)) \<and> (0x1018 :: addr) \<noteq> NULL \<and>
   sbrk_calls ex_empty = 0 \<and> sbrk_calls ex_minus_one = 2 \<and>
   brk ex_empty = 0x1000 \<and> brk ex_minus_one = 0x1017 \<and>
   global_base ex_empty = NULL \<and> global_base ex_minus_one = 0x1000"
proof -
  have "malloc (- 1) ex_empty = Some (Inr (0x1018, ex_minus_one))"
    unfolding minus_one_numeral by (rule malloc_ex_empty_max)
  moreover have "sint (- 1 :: size_t) < 0" by simp
  moreover have "sbrk_calls ex_empty = 0" "sbrk_calls ex_minus_one = 2"
    "global_base ex_empty = NULL" by (simp_all add: ex_defs)
  ultimately show ?thesis by (simp add: brk_ex global_base_ex NULL_def)
qed

subsection \<open>C8: \<^verbatim>\<open>calloc\<close>\<close>

text \<open>
  C8 says that, when the product does not overflow, \<^verbatim>\<open>calloc\<close> hands the request to
  \<^verbatim>\<open>malloc\<close> and, on success, every byte of the region returned is 0. The guard is
  right (lemma \<open>calloc_guard_iff\<close>), but the second half fails for
  \<^verbatim>\<open>calloc(1, SIZE_MAX)\<close> on the empty heap. The product is \<^verbatim>\<open>SIZE_MAX\<close> and does not
  overflow, so the guard lets it pass. \<^verbatim>\<open>malloc(SIZE_MAX)\<close> succeeds: its
  \<^verbatim>\<open>size + META_SIZE\<close> wraps around to 23, the break moves to \<open>0x1017\<close>, and it returns
  \<open>0x1018\<close>, a region of which not one byte lies below the break.
  \<^verbatim>\<open>memset(0x1018, 0, SIZE_MAX)\<close> then runs over a range that does not end below the end of
  the address space: the call ends in a fault, and \<^verbatim>\<open>calloc\<close> does not return a zeroed
  region. Carried out around the end of the address space, the same writes would run over
  the record at \<open>0x1000\<close> of this very region and erase its size and its marker.
\<close>

theorem calloc_huge_faults:
  "unat (1 :: size_t) * unat SIZE_MAX < 2 ^ 64 \<and>
   \<not> SIZE_MAX div 1 < SIZE_MAX \<and>
   (1 :: size_t) * SIZE_MAX = 0xFFFFFFFFFFFFFFFF \<and>
   malloc 0xFFFFFFFFFFFFFFFF ex_empty = Some (Inr (0x1018, ex_minus_one)) \<and>
   (0x1018 :: addr) \<noteq> NULL \<and>
   brk ex_minus_one = 0x1017 \<and>
   memset 0x1018 0 0xFFFFFFFFFFFFFFFF (mem ex_minus_one) = Inl SegmentationFault \<and>
   calloc 1 SIZE_MAX ex_empty = Some (Inl SegmentationFault) \<and>
   blocks (ex_minus_one\<lparr>mem := memset_bytes 0x1018 0 0xFFFFFFFFFFFFFFFF (mem ex_minus_one)\<rparr>)
     0x1000 = \<lparr>size_m = 0, next_m = 0, free_m = 0, magic_m = 0x12000000\<rparr>"
proof -
  have s: "SIZE_MAX = 0xFFFFFFFFFFFFFFFF" by (simp add: SIZE_MAX_def)
  have 1: "unat (1 :: size_t) * unat SIZE_MAX < 2 ^ 64" by (simp add: unat_SIZE_MAX)
  have 2: "\<not> SIZE_MAX div 1 < SIZE_MAX" by simp
  have 3: "(1 :: size_t) * SIZE_MAX = 0xFFFFFFFFFFFFFFFF" by (simp add: s)
  have 4: "memset 0x1018 0 0xFFFFFFFFFFFFFFFF (mem ex_minus_one) = Inl SegmentationFault"
    by (simp add: memset_def)
  have 5: "calloc 1 SIZE_MAX ex_empty = Some (Inl SegmentationFault)"
    using 4 by (simp add: calloc_def s Let_def malloc_ex_empty_max NULL_def)
  have 6: "blocks (ex_minus_one\<lparr>mem :=
       memset_bytes 0x1018 0 0xFFFFFFFFFFFFFFFF (mem ex_minus_one)\<rparr>) 0x1000 =
     \<lparr>size_m = 0, next_m = 0, free_m = 0, magic_m = 0x12000000\<rparr>"
    by (simp add: ex_defs eval_defs)
  have 7: "malloc 0xFFFFFFFFFFFFFFFF ex_empty = Some (Inr (0x1018, ex_minus_one))"
    by (rule malloc_ex_empty_max)
  have 8: "(0x1018 :: addr) \<noteq> NULL" by (simp add: NULL_def)
  have 9: "brk ex_minus_one = 0x1017" by (simp add: brk_ex)
  show ?thesis by (intro conjI 1 2 3 7 8 9 4 5 6)
qed

subsection \<open>C9: what a successful \<^verbatim>\<open>malloc\<close> changes\<close>





subsection \<open>C10: markers and flags\<close>

text \<open>
  C10 says that in every state reached from the empty heap every record of the chain has
  one of the three markers. It fails after a request whose \<^verbatim>\<open>size + META_SIZE\<close> wraps
  around. On the empty heap \<^verbatim>\<open>malloc(SIZE_MAX)\<close> moves the break by 23 only and returns
  \<open>0x1018\<close>; the break \<open>0x1017\<close> is the address of the last byte of the record at
  \<open>0x1000\<close>. The following \<^verbatim>\<open>malloc(16)\<close> puts its record at the break, and the lowest
  byte of its \<^verbatim>\<open>size\<close> overwrites the highest byte of the marker of the first record. Both
  calls return a region, both records are in the chain, and the first record, in use,
  has the marker \<open>0x10345678\<close>.
\<close>

theorem marker_invariant_fails:
  "SIZE_MAX = 0xFFFFFFFFFFFFFFFF \<and> (0 :: size_t) < 0xFFFFFFFFFFFFFFFF \<and>
   malloc 0xFFFFFFFFFFFFFFFF ex_empty = Some (Inr (0x1018, ex_minus_one)) \<and>
   brk ex_minus_one = 0x1017 \<and>
   blocks ex_minus_one 0x1000 =
     \<lparr>size_m = 0xFFFFFFFFFFFFFFFF, next_m = 0, free_m = 0, magic_m = 0x12345678\<rparr> \<and>
   malloc 16 ex_minus_one = Some (Inr (0x102F, ex_clobbered)) \<and>
   global_base ex_clobbered = 0x1000 \<and>
   chain_from ex_clobbered (global_base ex_clobbered) [0x1000, 0x1017] \<and>
   blocks ex_clobbered 0x1000 =
     \<lparr>size_m = 0xFFFFFFFFFFFFFFFF, next_m = 0x1017, free_m = 0, magic_m = 0x10345678\<rparr> \<and>
   (0x10345678 :: c_int) \<noteq> MAGIC_CARVED \<and> (0x10345678 :: c_int) \<noteq> MAGIC_RECYCLED \<and>
   (0x10345678 :: c_int) \<noteq> MAGIC_RELEASED"
  by (simp add: malloc_ex_empty_max malloc_ex_minus_one_16 blocks_ex_minus_one
      blocks_ex_clobbered global_base_ex brk_ex magic_defs NULL_def SIZE_MAX_def)

end
